theory Spec2Isabelle
  imports Main "HOL-Library.Sublist" "HOL-Library.Monad_Syntax"
begin

section \<open>Strings\<close>

text \<open>
  A TypeScript string is a sequence of UTF-16 code units; \<open>length\<close>, \<open>substring\<close>,
  \<open>indexOf\<close> and the regular expressions of \<^verbatim>\<open>scripts/lib/parser.ts\<close> (none has the
  \<^verbatim>\<open>u\<close> flag) all count and compare code units. A code unit is modelled by its number.
  \<open>js\<close> turns an ASCII literal into such a string.
\<close>

type_synonym jschar = nat
type_synonym jsstring = "jschar list"

definition js :: "string \<Rightarrow> jsstring" where
  "js s = map of_char s"

text \<open>
  The class \<^verbatim>\<open>\s\<close> of a regular expression, which is also what \<^verbatim>\<open>trim()\<close> removes:
  TAB, LF, VT, FF, CR, SP, NBSP, U+1680, U+2000..U+200A, U+2028, U+2029, U+202F, U+205F,
  U+3000 and U+FEFF.
\<close>

definition is_space :: "jschar \<Rightarrow> bool" where
  "is_space c = (c = 9 \<or> c = 10 \<or> c = 11 \<or> c = 12 \<or> c = 13 \<or> c = 32 \<or> c = 160 \<or> c = 5760
     \<or> (8192 \<le> c \<and> c \<le> 8202) \<or> c = 8232 \<or> c = 8233 \<or> c = 8239 \<or> c = 8287
     \<or> c = 12288 \<or> c = 65279)"

text \<open>The line terminators LF, CR, U+2028 and U+2029: what \<^verbatim>\<open>.\<close> does not match.\<close>

definition is_lt :: "jschar \<Rightarrow> bool" where
  "is_lt c = (c = 10 \<or> c = 13 \<or> c = 8232 \<or> c = 8233)"

definition not_lt :: "jschar \<Rightarrow> bool" where
  "not_lt c = (\<not> is_lt c)"

definition is_digit :: "jschar \<Rightarrow> bool" where
  "is_digit c = (48 \<le> c \<and> c \<le> 57)"

definition is_lower :: "jschar \<Rightarrow> bool" where
  "is_lower c = (97 \<le> c \<and> c \<le> 122)"

definition is_upper :: "jschar \<Rightarrow> bool" where
  "is_upper c = (65 \<le> c \<and> c \<le> 90)"

definition is_alpha :: "jschar \<Rightarrow> bool" where
  "is_alpha c = (is_upper c \<or> is_lower c)"

text \<open>The class \<^verbatim>\<open>\w\<close>: letters, digits and the underscore.\<close>

definition is_word :: "jschar \<Rightarrow> bool" where
  "is_word c = (is_alpha c \<or> is_digit c \<or> c = 95)"

text \<open>
  Under the \<^verbatim>\<open>i\<close> flag (without \<^verbatim>\<open>u\<close>) a pattern character and an input code unit match
  when their canonical forms are equal. For an ASCII pattern character that is equality
  after mapping a..z to A..Z: a code unit beyond ASCII is never canonicalised to an
  ASCII one.
\<close>

definition upper :: "jschar \<Rightarrow> jschar" where
  "upper c = (if is_lower c then c - 32 else c)"

definition ci_prefix :: "jsstring \<Rightarrow> jsstring \<Rightarrow> bool" where
  "ci_prefix p s = prefix (map upper p) (map upper s)"

definition ci_equal :: "jsstring \<Rightarrow> jsstring \<Rightarrow> bool" where
  "ci_equal p s = (map upper s = map upper p)"

text \<open>\<^verbatim>\<open>s.trim()\<close>.\<close>

definition trim :: "jsstring \<Rightarrow> jsstring" where
  "trim s = rev (dropWhile is_space (rev (dropWhile is_space s)))"

text \<open>\<^verbatim>\<open>s.replace(/\s+/g, ' ')\<close>: every maximal run of white space becomes one space.\<close>

function collapse_ws :: "jsstring \<Rightarrow> jsstring" where
  "collapse_ws [] = []"
| "collapse_ws (c # cs) =
     (if is_space c then 32 # collapse_ws (dropWhile is_space cs) else c # collapse_ws cs)"
  by pat_completeness auto
termination
  by (relation "measure length") (auto simp: less_Suc_eq_le length_dropWhile_le)

definition normalizeText :: "jsstring \<Rightarrow> jsstring" where
  "normalizeText text = trim (collapse_ws text)"

text \<open>\<^verbatim>\<open>text.split('\n')\<close>; the empty string gives one empty line.\<close>

fun split_lines :: "jsstring \<Rightarrow> jsstring list" where
  "split_lines [] = [[]]"
| "split_lines (c # cs) =
     (if c = 10 then [] # split_lines cs
      else (case split_lines cs of l # ls \<Rightarrow> (c # l) # ls | [] \<Rightarrow> [[c]]))"

text \<open>\<^verbatim>\<open>text.indexOf(pat)\<close>, with \<open>None\<close> for -1.\<close>

fun indexOf :: "jsstring \<Rightarrow> jsstring \<Rightarrow> nat option" where
  "indexOf pat [] = (if pat = [] then Some 0 else None)"
| "indexOf pat (c # cs) =
     (if prefix pat (c # cs) then Some 0 else map_option Suc (indexOf pat cs))"

text \<open>\<^verbatim>\<open>s.substring(a, b)\<close>: the arguments are capped at the length and swapped when \<open>a > b\<close>.\<close>

definition substring :: "jsstring \<Rightarrow> nat \<Rightarrow> nat \<Rightarrow> jsstring" where
  "substring s a b = take (max a b - min a b) (drop (min a b) s)"

text \<open>\<^verbatim>\<open>xs.join(' ')\<close>.\<close>

fun join_sp :: "jsstring list \<Rightarrow> jsstring" where
  "join_sp [] = []"
| "join_sp [x] = x"
| "join_sp (x # y # ys) = x @ 32 # join_sp (y # ys)"

section \<open>Data model\<close>

datatype act_status = In_force | Amended | Repealed | Not_yet_in_force

datatype act_kind = Statute

record ActIndexEntry =
  entry_id :: jsstring
  entry_lawName :: jsstring
  entry_year :: int
  entry_title :: jsstring
  entry_titleEn :: jsstring
  entry_abbreviation :: jsstring
  entry_status :: act_status
  entry_issuedDate :: jsstring
  entry_inForceDate :: jsstring
  entry_url :: jsstring

text \<open>\<open>prov_chapter\<close> is the optional field \<^verbatim>\<open>chapter\<close>: \<open>None\<close> is \<^verbatim>\<open>undefined\<close>.\<close>

record ParsedProvision =
  provision_ref :: jsstring
  prov_chapter :: "jsstring option"
  prov_section :: jsstring
  prov_title :: jsstring
  prov_content :: jsstring

record ParsedDefinition =
  def_term :: jsstring
  def_definition :: jsstring
  source_provision :: "jsstring option"

record ParsedAct =
  act_id :: jsstring
  act_type :: act_kind
  act_title :: jsstring
  act_title_en :: jsstring
  act_short_name :: jsstring
  act_status :: act_status
  act_issued_date :: jsstring
  act_in_force_date :: jsstring
  act_url :: jsstring
  act_description :: "jsstring option"
  provisions :: "ParsedProvision list"
  definitions :: "ParsedDefinition list"

text \<open>The object every parse function returns: the identity fields copied, no description.\<close>

definition mkAct :: "ActIndexEntry \<Rightarrow> ParsedProvision list \<Rightarrow> ParsedDefinition list \<Rightarrow> ParsedAct" where
  "mkAct act ps ds =
     \<lparr> act_id = entry_id act, act_type = Statute, act_title = entry_title act,
       act_title_en = entry_titleEn act, act_short_name = entry_abbreviation act,
       act_status = entry_status act, act_issued_date = entry_issuedDate act,
       act_in_force_date = entry_inForceDate act, act_url = entry_url act,
       act_description = None, provisions = ps, definitions = ds \<rparr>"

text \<open>
  Four entries of \<^verbatim>\<open>KEY_ISRAELI_ACTS\<close>; the Hebrew titles are written as their code units.
\<close>

definition privacyLawEntry :: ActIndexEntry where
  "privacyLawEntry =
     \<lparr> entry_id = js ''privacy-protection-law-1981'',
       entry_lawName = js ''Privacy Protection Law'',
       entry_year = 1981,
       entry_title =
         [1495, 1493, 1511, 32, 1492, 1490, 1504, 1514, 32, 1492, 1508, 1512, 1496,
          1497, 1493, 1514, 44, 32, 1514, 1513, 1502, 34, 1488, 45, 49, 57, 56, 49],
       entry_titleEn = js ''Protection of Privacy Law, 5741-1981'',
       entry_abbreviation = js ''PPL'',
       entry_status = In_force,
       entry_issuedDate = js ''1981-03-11'',
       entry_inForceDate = js ''1981-09-11'',
       entry_url = js ''https://ics.uci.edu/~kobsa/privacy/israel.htm'' \<rparr>"

definition computerLawEntry :: ActIndexEntry where
  "computerLawEntry =
     \<lparr> entry_id = js ''computer-law-1995'',
       entry_lawName = js ''Computers Law'',
       entry_year = 1995,
       entry_title =
         [1495, 1493, 1511, 32, 1492, 1502, 1495, 1513, 1489, 1497, 1501, 44, 32,
          1514, 1513, 1504, 34, 1492, 45, 49, 57, 57, 53],
       entry_titleEn = js ''Computers Law, 5755-1995'',
       entry_abbreviation = js ''CL'',
       entry_status = In_force,
       entry_issuedDate = js ''1995-07-25'',
       entry_inForceDate = js ''1995-10-25'',
       entry_url = js ''https://www.unodc.org/cld/uploads/res/document/computer-law_html/Israel_Computers_Law_5755_1995.pdf'' \<rparr>"

definition basicLawEntry :: ActIndexEntry where
  "basicLawEntry =
     \<lparr> entry_id = js ''basic-law-human-dignity-1992'',
       entry_lawName = js ''Basic Law: Human Dignity and Liberty'',
       entry_year = 1992,
       entry_title =
         [1495, 1493, 1511, 32, 1497, 1505, 1493, 1491, 58, 32, 1499, 1489, 1493,
          1491, 32, 1492, 1488, 1491, 1501, 32, 1493, 1495, 1497, 1512, 1493, 1514,
          1493],
       entry_titleEn = js ''Basic Law: Human Dignity and Liberty, 5752-1992'',
       entry_abbreviation = js ''BL-HDL'',
       entry_status = In_force,
       entry_issuedDate = js ''1992-03-17'',
       entry_inForceDate = js ''1992-03-17'',
       entry_url = js ''https://m.knesset.gov.il/EN/activity/documents/BasicLawsPDF/BasicLawLiberty.pdf'' \<rparr>"

definition companiesLawEntry :: ActIndexEntry where
  "companiesLawEntry =
     \<lparr> entry_id = js ''companies-law-1999'',
       entry_lawName = js ''Companies Law'',
       entry_year = 1999,
       entry_title =
         [1495, 1493, 1511, 32, 1492, 1495, 1489, 1512, 1493, 1514, 44, 32, 1514,
          1513, 1504, 34, 1496, 45, 49, 57, 57, 57],
       entry_titleEn = js ''Companies Law, 5759-1999'',
       entry_abbreviation = js ''CoL'',
       entry_status = In_force,
       entry_issuedDate = js ''1999-02-15'',
       entry_inForceDate = js ''2000-02-01'',
       entry_url = js ''https://www.gov.il/en/departments/legalinfo/companies_law'' \<rparr>"

text \<open>\<^verbatim>\<open>chapter: currentChapter || undefined\<close>: the empty string is falsy.\<close>

definition or_undefined :: "jsstring \<Rightarrow> jsstring option" where
  "or_undefined s = (if s = [] then None else Some s)"

section \<open>The loop \<^verbatim>\<open>while ((m = re.exec(s)) !== null) body\<close> of a global pattern\<close>

text \<open>
  \<open>re\<close> matches the pattern at the start of a suffix of the subject and gives the
  length of the match and its groups. \<^verbatim>\<open>exec\<close> looks for the first index at or after
  \<^verbatim>\<open>lastIndex\<close> where the pattern matches, and leaves \<^verbatim>\<open>lastIndex\<close> at the end of the
  match; \<open>pos\<close> is the index of the suffix \<open>s\<close> in the subject. After an empty match
  \<^verbatim>\<open>lastIndex\<close> stays where it is and the loop of the source never ends: the value is
  \<open>None\<close>, as it is for every call that does not return.
\<close>

partial_function (option) execLoop ::
  "(jsstring \<Rightarrow> (nat \<times> 'm) option) \<Rightarrow> ('a \<Rightarrow> nat \<Rightarrow> 'm \<Rightarrow> 'a) \<Rightarrow> nat \<Rightarrow> jsstring \<Rightarrow> 'a \<Rightarrow> 'a option"
where
  "execLoop re body pos s acc =
     (case re s of
        Some (n, m) \<Rightarrow>
          (if n = 0 then execLoop re body pos s (body acc pos m)
           else execLoop re body (pos + n) (drop n s) (body acc pos m))
      | None \<Rightarrow> (case s of [] \<Rightarrow> Some acc | c # t \<Rightarrow> execLoop re body (pos + 1) t acc))"

text \<open>
  The same equation in two steps, the branches taken only once the match is evaluated.
\<close>

definition afterExec ::
  "(jsstring \<Rightarrow> (nat \<times> 'm) option) \<Rightarrow> ('a \<Rightarrow> nat \<Rightarrow> 'm \<Rightarrow> 'a) \<Rightarrow> nat \<Rightarrow> jsstring \<Rightarrow> 'a
     \<Rightarrow> (nat \<times> 'm) option \<Rightarrow> 'a option"
where
  "afterExec re body pos s acc r =
     (case r of
        Some (n, m) \<Rightarrow>
          (if n = 0 then execLoop re body pos s (body acc pos m)
           else execLoop re body (pos + n) (drop n s) (body acc pos m))
      | None \<Rightarrow> (case s of [] \<Rightarrow> Some acc | c # t \<Rightarrow> execLoop re body (pos + 1) t acc))"

section \<open>Definition extractors\<close>

text \<open>
  The three definition patterns share one shape:
  an opening quote, the term \<^verbatim>\<open>([^...]+)\<close>, a closing quote, \<^verbatim>\<open>\s*\<close>, one dash
  (\<^verbatim>\<open>[-\u2013\u2014]\<close>) or a run of them (\<^verbatim>\<open>[-\u2013\u2014]+\<close>), \<^verbatim>\<open>\s*\<close>, and the
  definition \<^verbatim>\<open>([^;]+(?:;|$))\<close> or \<^verbatim>\<open>([^;]+;)\<close>.

  The term is the longest run of characters that are not closing quotes (a shorter one is
  followed by a character that is no closing quote). \<open>u\<close> is the longest run without a
  semicolon after the dashes. \<^verbatim>\<open>\s*\<close> takes the white space \<open>u\<close> starts with and
  \<^verbatim>\<open>[^;]+\<close> the rest of \<open>u\<close>; when \<open>u\<close> is white space only, \<^verbatim>\<open>\s*\<close> gives its last
  character back. When \<open>u\<close> is empty, a run of two dashes or more gives its last dash to
  \<^verbatim>\<open>[^;]+\<close>.
\<close>

definition is_dash :: "jschar \<Rightarrow> bool" where
  "is_dash c = (c = 45 \<or> c = 8211 \<or> c = 8212)"

definition def_body :: "jsstring \<Rightarrow> jsstring" where
  "def_body u = (if dropWhile is_space u = [] then [last u] else dropWhile is_space u)"

definition matchQuoted ::
  "(jschar \<Rightarrow> bool) \<Rightarrow> (jschar \<Rightarrow> bool) \<Rightarrow> bool \<Rightarrow> bool \<Rightarrow> jsstring \<Rightarrow> (nat \<times> jsstring \<times> jsstring) option"
where
  "matchQuoted is_open is_close dash_run need_semi s =
     (case s of [] \<Rightarrow> None
      | q # r \<Rightarrow>
        if \<not> is_open q then None
        else let t = takeWhile (\<lambda>c. \<not> is_close c) r; r1 = dropWhile (\<lambda>c. \<not> is_close c) r in
          if t = [] \<or> r1 = [] then None
          else let w1 = takeWhile is_space (tl r1); r3 = dropWhile is_space (tl r1);
                   ds = (if dash_run then takeWhile is_dash r3 else take 1 (takeWhile is_dash r3));
                   r4 = drop (length ds) r3;
                   u = takeWhile (\<lambda>c. c \<noteq> 59) r4;
                   semi = (dropWhile (\<lambda>c. c \<noteq> 59) r4 \<noteq> []);
                   n0 = 1 + length t + 1 + length w1 + length ds
               in
                 if ds = [] \<or> (need_semi \<and> \<not> semi) then None
                 else if u \<noteq> [] then
                   Some (n0 + length u + (if semi then 1 else 0), t,
                         def_body u @ (if semi then [59] else []))
                 else if 2 \<le> length ds then
                   Some (n0 + (if semi then 1 else 0), t, last ds # (if semi then [59] else []))
                 else None)"

definition straight_or_left :: "jschar \<Rightarrow> bool" where
  "straight_or_left c = (c = 34 \<or> c = 8220)"

definition straight_or_right :: "jschar \<Rightarrow> bool" where
  "straight_or_right c = (c = 34 \<or> c = 8221)"

definition straight :: "jschar \<Rightarrow> bool" where
  "straight c = (c = 34)"

text \<open>
  The pattern of \<^verbatim>\<open>extractDefinitionsFromContent\<close>, with one dash and an optional
  semicolon, and the two patterns of \<^verbatim>\<open>extractDefinitionsFromPlainText\<close>.
\<close>

definition defPattern :: "jsstring \<Rightarrow> (nat \<times> jsstring \<times> jsstring) option" where
  "defPattern = matchQuoted straight_or_left straight_or_right False False"

definition plainPattern1 :: "jsstring \<Rightarrow> (nat \<times> jsstring \<times> jsstring) option" where
  "plainPattern1 = matchQuoted straight_or_left straight_or_right True True"

definition plainPattern2 :: "jsstring \<Rightarrow> (nat \<times> jsstring \<times> jsstring) option" where
  "plainPattern2 = matchQuoted straight straight True True"

text \<open>\<^verbatim>\<open>s.replace(/;$/, '')\<close>: a semicolon at the very end is removed.\<close>

definition drop_final_semi :: "jsstring \<Rightarrow> jsstring" where
  "drop_final_semi s = (if s \<noteq> [] \<and> last s = 59 then butlast s else s)"

definition termOf :: "jsstring \<Rightarrow> jsstring" where
  "termOf g1 = normalizeText g1"

definition definitionOf :: "jsstring \<Rightarrow> jsstring" where
  "definitionOf g2 = trim (drop_final_semi (normalizeText g2))"

text \<open>\<^verbatim>\<open>definitions.some((d) => d.term === term)\<close>.\<close>

definition has_term :: "ParsedDefinition list \<Rightarrow> jsstring \<Rightarrow> bool" where
  "has_term ds t = list_ex (\<lambda>d. def_term d = t) ds"

text \<open>The length test both extractors apply to a match.\<close>

definition acceptable :: "jsstring \<Rightarrow> jsstring \<Rightarrow> bool" where
  "acceptable t d = (1 < length t \<and> length t < 80 \<and> 5 < length d)"

text \<open>The body of the loop of \<^verbatim>\<open>extractDefinitionsFromContent\<close>, for one match.\<close>

definition contentStep ::
  "jsstring \<Rightarrow> ParsedDefinition list \<Rightarrow> nat \<Rightarrow> jsstring \<times> jsstring \<Rightarrow> ParsedDefinition list"
where
  "contentStep sourceProvision ds pos m =
     (let t = termOf (fst m); d = definitionOf (snd m) in
        if acceptable t d then
          (if \<not> has_term ds t then
             ds @ [\<lparr> def_term = t, def_definition = d, source_provision = Some sourceProvision \<rparr>]
           else ds)
        else ds)"

definition extractDefinitionsFromContent ::
  "jsstring \<Rightarrow> jsstring \<Rightarrow> ParsedDefinition list \<Rightarrow> ParsedDefinition list option"
where
  "extractDefinitionsFromContent content sourceProvision ds =
     execLoop defPattern (contentStep sourceProvision) 0 content ds"

text \<open>
  The body of the loops of \<^verbatim>\<open>extractDefinitionsFromPlainText\<close>; the state is the set
  \<^verbatim>\<open>seen\<close> and the definitions.
\<close>

definition plainStep ::
  "jsstring \<Rightarrow> jsstring set \<times> ParsedDefinition list \<Rightarrow> nat \<Rightarrow> jsstring \<times> jsstring
     \<Rightarrow> jsstring set \<times> ParsedDefinition list"
where
  "plainStep sourceProvision st pos m =
     (let t = termOf (fst m); d = definitionOf (snd m) in
        if acceptable t d \<and> t \<notin> fst st then
          (insert t (fst st),
           if \<not> has_term (snd st) t then
             snd st @ [\<lparr> def_term = t, def_definition = d, source_provision = Some sourceProvision \<rparr>]
           else snd st)
        else st)"

definition extractDefinitionsFromPlainText ::
  "jsstring \<Rightarrow> jsstring \<Rightarrow> ParsedDefinition list \<Rightarrow> ParsedDefinition list option"
where
  "extractDefinitionsFromPlainText content sourceProvision ds =
     do {
       st1 \<leftarrow> execLoop plainPattern1 (plainStep sourceProvision) 0 content ({}, ds);
       st2 \<leftarrow> execLoop plainPattern2 (plainStep sourceProvision) 0 content st1;
       Some (snd st2)
     }"

section \<open>Line patterns of the plain-text parsers\<close>

text \<open>
  \<^verbatim>\<open>^(\d+[L]?)\.\<close> for a class \<open>L\<close> of letters: the digits, the optional letter and the
  full stop, giving group 1 and the rest of the line. The run of digits is the longest one,
  since what follows a shorter run is a digit and neither a letter nor a full stop; and a
  letter is taken when there is one, since without it the full stop would have to be
  that letter.
\<close>

definition sectionLabel :: "(jschar \<Rightarrow> bool) \<Rightarrow> jsstring \<Rightarrow> (jsstring \<times> jsstring) option" where
  "sectionLabel letter line =
     (let ds = takeWhile is_digit line; r = dropWhile is_digit line;
          l = (case r of [] \<Rightarrow> [] | c # _ \<Rightarrow> if letter c then [c] else []);
          r' = drop (length l) r
      in if ds = [] then None
         else (case r' of [] \<Rightarrow> None | c # rest \<Rightarrow> if c = 46 then Some (ds @ l, rest) else None))"

text \<open>
  \<^verbatim>\<open>/^Chapter\s+(One|Two|Three|Four|Five|Six|Seven|Eight|Nine|Ten|\w+):\s*(.+)/i\<close>; only
  whether it matches is used. Every alternative of group 1 is a run of word characters
  that the colon follows, so the run is the longest one. After the colon \<^verbatim>\<open>\s*\<close> may
  stop anywhere in the white space, and \<^verbatim>\<open>(.+)\<close> needs one character that is no line
  terminator, there or after the white space.
\<close>

definition chapterMatch :: "jsstring \<Rightarrow> bool" where
  "chapterMatch line =
     (ci_prefix (js ''Chapter'') line \<and>
      (let r1 = drop 7 line; r2 = dropWhile is_space r1;
           w = takeWhile is_word r2; r3 = dropWhile is_word r2
       in takeWhile is_space r1 \<noteq> [] \<and> w \<noteq> [] \<and> r3 \<noteq> [] \<and> hd r3 = 58 \<and>
          list_ex not_lt (takeWhile is_space (tl r3) @ take 1 (dropWhile is_space (tl r3)))))"

text \<open>\<^verbatim>\<open>/^(\d+[A-Za-z]?)\.\s*$/\<close>: group 1.\<close>

definition sectionAloneMatch :: "jsstring \<Rightarrow> jsstring option" where
  "sectionAloneMatch line =
     (case sectionLabel is_alpha line of
        None \<Rightarrow> None
      | Some (g1, rest) \<Rightarrow> if list_all is_space rest then Some g1 else None)"

text \<open>
  \<^verbatim>\<open>\s+(.+)\<close> or \<^verbatim>\<open>\s*(.+)\<close> at the start of \<open>r\<close>: the number of characters the white
  space takes, which is the largest \<open>k\<close> from \<open>n\<close> down to \<open>lo\<close> such that the character
  at \<open>k\<close> is there and is no line terminator.
\<close>

fun space_then_any :: "nat \<Rightarrow> nat \<Rightarrow> jsstring \<Rightarrow> nat option" where
  "space_then_any lo 0 r = (if lo = 0 \<and> list_ex not_lt (take 1 r) then Some 0 else None)"
| "space_then_any lo (Suc k) r =
     (if Suc k < lo then None
      else if list_ex not_lt (take 1 (drop (Suc k) r)) then Some (Suc k)
      else space_then_any lo k r)"

text \<open>\<^verbatim>\<open>/^(\d+[A-Za-z]?)\.\s+(.+)/\<close>: groups 0, 1 and 2.\<close>

definition sectionInlineMatch :: "jsstring \<Rightarrow> (jsstring \<times> jsstring \<times> jsstring) option" where
  "sectionInlineMatch line =
     (case sectionLabel is_alpha line of
        None \<Rightarrow> None
      | Some (g1, rest) \<Rightarrow>
          (case space_then_any 1 (length (takeWhile is_space rest)) rest of
             None \<Rightarrow> None
           | Some k \<Rightarrow>
               (let g2 = takeWhile not_lt (drop k rest)
                in Some (g1 @ 46 # take k rest @ g2, g1, g2))))"

text \<open>A case-insensitive word at the start of the line, then \<^verbatim>\<open>\s+\<close>.\<close>

definition ci_word_space :: "jsstring \<Rightarrow> jsstring \<Rightarrow> bool" where
  "ci_word_space w l = (ci_prefix w l \<and> list_ex is_space (take 1 (drop (length w) l)))"

text \<open>\<^verbatim>\<open>/^Chapter\s+/i\<close>, \<^verbatim>\<open>/^Go$/i\<close>, \<^verbatim>\<open>/^Section\s+\d+/\<close>, \<^verbatim>\<open>/^Clause\s+/i\<close>, \<^verbatim>\<open>/^\*/\<close>,
  \<^verbatim>\<open>/^Contents$/\<close>, \<^verbatim>\<open>/^\d+$/\<close>, \<^verbatim>\<open>/^Computers Law/i\<close>, \<^verbatim>\<open>/^Published in/i\<close>,
  \<^verbatim>\<open>/^\*$/\<close> and \<^verbatim>\<open>/^Computers Law, 1995/i\<close>.\<close>

definition reChapterSp :: "jsstring \<Rightarrow> bool" where
  "reChapterSp l = ci_word_space (js ''Chapter'') l"

definition reGo :: "jsstring \<Rightarrow> bool" where
  "reGo l = ci_equal (js ''Go'') l"

definition reSectionNum :: "jsstring \<Rightarrow> bool" where
  "reSectionNum l =
     (prefix (js ''Section'') l \<and> takeWhile is_space (drop 7 l) \<noteq> [] \<and>
      list_ex is_digit (take 1 (dropWhile is_space (drop 7 l))))"

definition reClauseSp :: "jsstring \<Rightarrow> bool" where
  "reClauseSp l = ci_word_space (js ''Clause'') l"

definition reStar :: "jsstring \<Rightarrow> bool" where
  "reStar l = prefix [42] l"

definition reContents :: "jsstring \<Rightarrow> bool" where
  "reContents l = (l = js ''Contents'')"

definition reDigits :: "jsstring \<Rightarrow> bool" where
  "reDigits l = (l \<noteq> [] \<and> list_all is_digit l)"

definition reComputersLaw :: "jsstring \<Rightarrow> bool" where
  "reComputersLaw l = ci_prefix (js ''Computers Law'') l"

definition rePublishedIn :: "jsstring \<Rightarrow> bool" where
  "rePublishedIn l = ci_prefix (js ''Published in'') l"

definition reStarOnly :: "jsstring \<Rightarrow> bool" where
  "reStarOnly l = (l = [42])"

definition reComputersLaw1995 :: "jsstring \<Rightarrow> bool" where
  "reComputersLaw1995 l = ci_prefix (js ''Computers Law, 1995'') l"

section \<open>\<^verbatim>\<open>parseComputerLawText\<close>\<close>

text \<open>The accumulator of a section, and the variables of the loop over the lines.\<close>

record sec_acc =
  sec_num :: jsstring
  sec_title :: jsstring
  sec_content :: jsstring
  sec_chapter :: jsstring

record cl_state =
  currentChapter :: jsstring
  sections :: "sec_acc list"
  currentSection :: "sec_acc option"
  marginalNoteLines :: "jsstring list"

definition cl_init :: cl_state where
  "cl_init = \<lparr> currentChapter = [], sections = [], currentSection = None, marginalNoteLines = [] \<rparr>"

text \<open>The two filters of the marginal notes: the second one lacks \<^verbatim>\<open>/^Published in/i\<close>.\<close>

definition titleCandidateInline :: "jsstring \<Rightarrow> bool" where
  "titleCandidateInline l =
     (0 < length l \<and> length l < 100
      \<and> \<not> reChapterSp l \<and> \<not> reGo l
      \<and> \<not> reSectionNum l \<and> \<not> reClauseSp l
      \<and> \<not> reStar l \<and> \<not> reContents l
      \<and> \<not> reDigits l \<and> \<not> reComputersLaw l)"

definition titleCandidateAlone :: "jsstring \<Rightarrow> bool" where
  "titleCandidateAlone l = (titleCandidateInline l \<and> \<not> rePublishedIn l)"

text \<open>\<^verbatim>\<open>if (currentSection) sections.push(currentSection)\<close>.\<close>

definition pushCurrent :: "'a list \<Rightarrow> 'a option \<Rightarrow> 'a list" where
  "pushCurrent secs cur = (case cur of None \<Rightarrow> secs | Some s \<Rightarrow> secs @ [s])"

text \<open>One turn of the loop over the lines, for the line \<^verbatim>\<open>lines[i]\<close>.\<close>

definition cl_step :: "cl_state \<Rightarrow> jsstring \<Rightarrow> cl_state" where
  "cl_step st raw =
     (let line = trim raw in
      if chapterMatch line then
        st\<lparr> currentChapter := normalizeText line, marginalNoteLines := [] \<rparr>
      else case sectionAloneMatch line of
        Some g1 \<Rightarrow>
          st\<lparr> sections := pushCurrent (sections st) (currentSection st),
              currentSection := Some
                \<lparr> sec_num = g1,
                  sec_title = normalizeText (join_sp (filter titleCandidateAlone (marginalNoteLines st))),
                  sec_content = [],
                  sec_chapter = currentChapter st \<rparr>,
              marginalNoteLines := [] \<rparr>
      | None \<Rightarrow>
        (case sectionInlineMatch line of
          Some (g0, g1, g2) \<Rightarrow>
            if rePublishedIn g2 then st
            else
              st\<lparr> sections := pushCurrent (sections st) (currentSection st),
                  currentSection := Some
                    \<lparr> sec_num = g1,
                      sec_title = normalizeText (join_sp (filter titleCandidateInline (marginalNoteLines st))),
                      sec_content = normalizeText g0,
                      sec_chapter = currentChapter st \<rparr>,
                  marginalNoteLines := [] \<rparr>
        | None \<Rightarrow>
          (case currentSection st of
            Some cur \<Rightarrow>
              if 0 < length line then
                (if reDigits line \<and> length line \<le> 3 then st
                 else if reComputersLaw1995 line then st
                 else st\<lparr> currentSection :=
                        Some (cur\<lparr> sec_content := sec_content cur @ 32 # normalizeText line \<rparr>) \<rparr>)
              else st
          | None \<Rightarrow>
              if 0 < length line then
                (if \<not> reGo line \<and> \<not> reSectionNum line
                    \<and> \<not> reComputersLaw line \<and> \<not> reDigits line
                    \<and> \<not> reStarOnly line \<and> \<not> rePublishedIn line
                 then st\<lparr> marginalNoteLines := marginalNoteLines st @ [line] \<rparr>
                 else if reGo line \<or> reSectionNum line then st\<lparr> marginalNoteLines := [] \<rparr>
                 else st)
              else st)))"

text \<open>The sections the loop collects, the last open one included.\<close>

definition cl_sections :: "jsstring list \<Rightarrow> sec_acc list" where
  "cl_sections lines =
     (let st = foldl cl_step cl_init lines in pushCurrent (sections st) (currentSection st))"

text \<open>The loop over the sections: the state is the provisions and the definitions.\<close>

definition cl_provision :: "sec_acc \<Rightarrow> jsstring \<Rightarrow> ParsedProvision" where
  "cl_provision sec content =
     \<lparr> provision_ref = js ''sec'' @ sec_num sec,
       prov_chapter = or_undefined (sec_chapter sec),
       prov_section = sec_num sec,
       prov_title = sec_title sec,
       prov_content = substring content 0 8000 \<rparr>"

fun cl_emit ::
  "sec_acc list \<Rightarrow> ParsedProvision list \<times> ParsedDefinition list
     \<Rightarrow> (ParsedProvision list \<times> ParsedDefinition list) option"
where
  "cl_emit [] out = Some out"
| "cl_emit (sec # rest) out =
     (let content = normalizeText (sec_content sec) in
      if 10 < length content then
        do {
          ds \<leftarrow> (if sec_num sec = js ''1''
                 then extractDefinitionsFromPlainText content (js ''sec'' @ sec_num sec) (snd out)
                 else Some (snd out));
          cl_emit rest (fst out @ [cl_provision sec content], ds)
        }
      else cl_emit rest out)"

text \<open>The text that is parsed: from \<^verbatim>\<open>Computers Law, 5755\<close> on when it occurs.\<close>

definition lawText :: "jsstring \<Rightarrow> jsstring" where
  "lawText text =
     (case indexOf (js ''Computers Law, 5755'') text of
        Some lawTextStart \<Rightarrow> drop lawTextStart text
      | None \<Rightarrow> text)"

definition parseComputerLawText :: "jsstring \<Rightarrow> ActIndexEntry \<Rightarrow> ParsedAct option" where
  "parseComputerLawText text act =
     do {
       out \<leftarrow> cl_emit (cl_sections (split_lines (lawText text))) ([], []);
       Some (mkAct act (fst out) (snd out))
     }"

section \<open>\<^verbatim>\<open>parseBasicLawText\<close>\<close>

text \<open>
  \<^verbatim>\<open>lines[j]\<close>: \<open>None\<close> is \<^verbatim>\<open>undefined\<close>, on which \<^verbatim>\<open>.trim()\<close> throws a TypeError. The
  parse functions return \<open>None\<close> where the source throws or does not return.
\<close>

definition line_at :: "jsstring list \<Rightarrow> int \<Rightarrow> jsstring option" where
  "line_at lines j = (if 0 \<le> j \<and> j < int (length lines) then Some (lines ! nat j) else None)"

text \<open>\<^verbatim>\<open>/^(\d+[a-z]?)\.\s*(.*)/\<close>: groups 0, 1 and 2.\<close>

definition sectionMatch :: "jsstring \<Rightarrow> (jsstring \<times> jsstring \<times> jsstring) option" where
  "sectionMatch line =
     (case sectionLabel is_lower line of
        None \<Rightarrow> None
      | Some (g1, rest) \<Rightarrow>
          (let g2 = takeWhile not_lt (dropWhile is_space rest)
           in Some (g1 @ 46 # takeWhile is_space rest @ g2, g1, g2)))"

text \<open>\<^verbatim>\<open>/^\d+[a-z]?\.\s/\<close>, \<^verbatim>\<open>/^\(Amendment/\<close> and the header and footer lines
  \<^verbatim>\<open>/^BASIC-LAW:/i\<close>, \<^verbatim>\<open>/^This unofficial/i\<close>, \<^verbatim>\<open>/^For the full/i\<close>,
  \<^verbatim>\<open>/^Special thanks/i\<close>.\<close>

definition reLabelSpace :: "jsstring \<Rightarrow> bool" where
  "reLabelSpace l =
     (case sectionLabel is_lower l of None \<Rightarrow> False | Some (g1, rest) \<Rightarrow> list_ex is_space (take 1 rest))"

definition reAmendment :: "jsstring \<Rightarrow> bool" where
  "reAmendment l = prefix (js ''(Amendment'') l"

definition reHeaderFooter :: "jsstring \<Rightarrow> bool" where
  "reHeaderFooter l =
     (ci_prefix (js ''BASIC-LAW:'') l \<or> ci_prefix (js ''This unofficial'') l
      \<or> ci_prefix (js ''For the full'') l \<or> ci_prefix (js ''Special thanks'') l)"

record basic_acc =
  bl_num :: jsstring
  bl_title :: jsstring
  bl_content :: jsstring

text \<open>
  The look back for the title: \<^verbatim>\<open>for (let j = i - 1; j >= Math.max(0, i - 4); j--)\<close>, from the
  test of its condition at \<open>j\<close> on.
\<close>

function lookBack :: "jsstring list \<Rightarrow> int \<Rightarrow> int \<Rightarrow> jsstring \<Rightarrow> jsstring option" where
  "lookBack lines i j title =
     (if max 0 (i - 4) \<le> j then
        (case line_at lines j of
           None \<Rightarrow> None
         | Some l \<Rightarrow>
             (let prevLine = trim l in
              if 0 < length prevLine \<and> \<not> reLabelSpace prevLine
                  \<and> \<not> reAmendment prevLine \<and> length prevLine < 100
              then lookBack lines i (j - 1) (prevLine @ (if title \<noteq> [] then 32 # title else []))
              else if length prevLine = 0 \<and> 0 < length title then Some title
              else lookBack lines i (j - 1) title))
      else Some title)"
  by pat_completeness auto
termination
  by (relation "measure (\<lambda>(lines, i, j, title). nat (j + 1))") auto

declare lookBack.simps [simp del]

text \<open>One turn of the loop over the lines, for the trimmed line \<open>line\<close> at index \<open>i\<close>.\<close>

definition bl_step ::
  "jsstring list \<Rightarrow> nat \<Rightarrow> basic_acc list \<times> basic_acc option \<Rightarrow> jsstring
     \<Rightarrow> (basic_acc list \<times> basic_acc option) option"
where
  "bl_step lines i st line =
     (case sectionMatch line of
        Some (g0, g1, g2) \<Rightarrow>
          do {
            title \<leftarrow> lookBack lines (int i) (int i - 1) [];
            Some (pushCurrent (fst st) (snd st),
                  Some \<lparr> bl_num = g1, bl_title = normalizeText title,
                         bl_content = (if g2 \<noteq> [] then normalizeText g0 else []) \<rparr>)
          }
      | None \<Rightarrow>
          (case snd st of
             Some cur \<Rightarrow>
               if 0 < length line then
                 (if reHeaderFooter line then Some st
                  else Some (fst st, Some (cur\<lparr> bl_content := bl_content cur @ 32 # normalizeText line \<rparr>)))
               else Some st
           | None \<Rightarrow> Some st))"

function bl_loop ::
  "jsstring list \<Rightarrow> nat \<Rightarrow> basic_acc list \<times> basic_acc option
     \<Rightarrow> (basic_acc list \<times> basic_acc option) option"
where
  "bl_loop lines i st =
     (if i < length lines then
        (case line_at lines (int i) of
           None \<Rightarrow> None
         | Some raw \<Rightarrow>
             (case bl_step lines i st (trim raw) of
                None \<Rightarrow> None
              | Some st' \<Rightarrow> bl_loop lines (i + 1) st'))
      else Some st)"
  by pat_completeness auto
termination
  by (relation "measure (\<lambda>(lines, i, st). length lines - i)") auto

declare bl_loop.simps [simp del]

definition bl_provision :: "basic_acc \<Rightarrow> jsstring \<Rightarrow> ParsedProvision" where
  "bl_provision sec content =
     \<lparr> provision_ref = js ''sec'' @ bl_num sec,
       prov_chapter = None,
       prov_section = bl_num sec,
       prov_title = bl_title sec,
       prov_content = substring content 0 8000 \<rparr>"

fun bl_emit :: "basic_acc list \<Rightarrow> ParsedProvision list \<Rightarrow> ParsedProvision list" where
  "bl_emit [] out = out"
| "bl_emit (sec # rest) out =
     (let content = normalizeText (bl_content sec) in
      if 10 < length content then bl_emit rest (out @ [bl_provision sec content])
      else bl_emit rest out)"

definition parseBasicLawText :: "jsstring \<Rightarrow> ActIndexEntry \<Rightarrow> ParsedAct option" where
  "parseBasicLawText text act =
     do {
       st \<leftarrow> bl_loop (split_lines text) 0 ([], None);
       Some (mkAct act (bl_emit (pushCurrent (fst st) (snd st)) []) [])
     }"

section \<open>The HTML parsers\<close>

text \<open>\<^verbatim>\<open>s.replace(/<[^>]+>/g, ' ')\<close>: a tag is \<^verbatim>\<open><\<close>, the longest run without \<^verbatim>\<open>>\<close>, which
  is not empty, and the \<^verbatim>\<open>>\<close> after it.\<close>

definition not_gt :: "jschar \<Rightarrow> bool" where
  "not_gt c = (c \<noteq> 62)"

definition not_lt_sign :: "jschar \<Rightarrow> bool" where
  "not_lt_sign c = (c \<noteq> 60)"

definition not_colon :: "jschar \<Rightarrow> bool" where
  "not_colon c = (c \<noteq> 58)"

function replaceTags :: "jsstring \<Rightarrow> jsstring" where
  "replaceTags [] = []"
| "replaceTags (c # cs) =
     (if c = 60 \<and> takeWhile not_gt cs \<noteq> [] \<and> dropWhile not_gt cs \<noteq> []
      then 32 # replaceTags (tl (dropWhile not_gt cs))
      else c # replaceTags cs)"
  by pat_completeness auto
termination
  by (relation "measure length")
     (auto simp: less_Suc_eq_le intro!: le_trans [OF diff_le_self length_dropWhile_le])

text \<open>\<^verbatim>\<open>s.replace(/pat/g, rep)\<close> for a pattern that is a literal string.\<close>

function replaceLit :: "jsstring \<Rightarrow> jsstring \<Rightarrow> jsstring \<Rightarrow> jsstring" where
  "replaceLit pat rep [] = []"
| "replaceLit pat rep (c # cs) =
     (if pat \<noteq> [] \<and> prefix pat (c # cs)
      then rep @ replaceLit pat rep (drop (length pat) (c # cs))
      else c # replaceLit pat rep cs)"
  by pat_completeness auto
termination
  by (relation "measure (\<lambda>(pat, rep, s). length s)") (auto simp: Suc_le_eq)

definition decodeEntities :: "jsstring \<Rightarrow> jsstring" where
  "decodeEntities s =
     replaceLit (js ''&#39;'') [39]
       (replaceLit (js ''&quot;'') [34]
         (replaceLit (js ''&gt;'') [62]
           (replaceLit (js ''&lt;'') [60]
             (replaceLit (js ''&amp;'') [38]
               (replaceLit (js ''&nbsp;'') [32] s)))))"

definition stripHtml :: "jsstring \<Rightarrow> jsstring" where
  "stripHtml html = trim (collapse_ws (decodeEntities (replaceTags html)))"

text \<open>
  \<^verbatim>\<open>/PROTECTION OF PRIVACY LAW[\s\S]*?(?=<\/TD>\s*<\/TR>\s*<\/TABLE>\s*<BR>)/i\<close>. The
  lookahead holds at the start of \<open>s\<close>; the lazy \<^verbatim>\<open>[\s\S]*?\<close> stops at the first place
  where it holds; \<^verbatim>\<open>html.match\<close> takes the first index where the whole pattern matches.
\<close>

definition tagThenSpace :: "jsstring \<Rightarrow> jsstring \<Rightarrow> jsstring option" where
  "tagThenSpace tag s = (if ci_prefix tag s then Some (dropWhile is_space (drop (length tag) s)) else None)"

definition tableEnd :: "jsstring \<Rightarrow> bool" where
  "tableEnd s =
     (case tagThenSpace (js ''</TD>'') s of
        None \<Rightarrow> False
      | Some s1 \<Rightarrow>
          (case tagThenSpace (js ''</TR>'') s1 of
             None \<Rightarrow> False
           | Some s2 \<Rightarrow>
               (case tagThenSpace (js ''</TABLE>'') s2 of
                  None \<Rightarrow> False
                | Some s3 \<Rightarrow> ci_prefix (js ''<BR>'') s3)))"

fun lazyUntil :: "(jsstring \<Rightarrow> bool) \<Rightarrow> jsstring \<Rightarrow> nat option" where
  "lazyUntil ahead [] = (if ahead [] then Some 0 else None)"
| "lazyUntil ahead (c # cs) =
     (if ahead (c # cs) then Some 0 else map_option Suc (lazyUntil ahead cs))"

definition bodyAt :: "jsstring \<Rightarrow> jsstring option" where
  "bodyAt s =
     (if ci_prefix (js ''PROTECTION OF PRIVACY LAW'') s then
        map_option (\<lambda>k. take (25 + k) s) (lazyUntil tableEnd (drop 25 s))
      else None)"

fun bodyMatch :: "jsstring \<Rightarrow> jsstring option" where
  "bodyMatch [] = bodyAt []"
| "bodyMatch (c # cs) = (case bodyAt (c # cs) of Some b \<Rightarrow> Some b | None \<Rightarrow> bodyMatch cs)"

text \<open>
  \<^verbatim>\<open>/<B>\s*(CHAPTER\s+[^:]+:\s*[^<]+)<\/B>/gi\<close> and the same pattern with \<^verbatim>\<open>Article\<close>, for
  the keyword \<open>kw\<close>: the length of the match and group 1.
  \<open>r\<close> is the longest run without a colon after the keyword: \<^verbatim>\<open>\s+[^:]+\<close> matches it
  when it starts with white space and has two characters or more, and the colon must
  follow. \<open>q\<close> is the longest run without \<^verbatim>\<open><\<close> after the colon: \<^verbatim>\<open>\s*[^<]+\<close> matches it
  when it is not empty, and \<^verbatim>\<open></B>\<close> must follow.
\<close>

definition matchHeading :: "jsstring \<Rightarrow> jsstring \<Rightarrow> (nat \<times> jsstring) option" where
  "matchHeading kw s =
     (if \<not> ci_prefix (js ''<B>'') s then None
      else let w0 = takeWhile is_space (drop 3 s); r1 = dropWhile is_space (drop 3 s) in
        if \<not> ci_prefix kw r1 then None
        else let r2 = drop (length kw) r1;
                 r = takeWhile not_colon r2; r3 = dropWhile not_colon r2;
                 q = takeWhile not_lt_sign (tl r3); r5 = dropWhile not_lt_sign (tl r3)
             in
               if takeWhile is_space r \<noteq> [] \<and> 2 \<le> length r \<and> r3 \<noteq> [] \<and> q \<noteq> []
                   \<and> ci_prefix (js ''</B>'') r5
               then Some (3 + length w0 + length kw + length r + 1 + length q + 4,
                          take (length kw + length r + 1 + length q) r1)
               else None)"

text \<open>
  \<^verbatim>\<open>/<B>(?:<a[^>]*><\/a>)?\s*(\d+[A-Z]?)\.\s+([^<]+)<\/B>/gi\<close>: the length of the match,
  group 1 and group 2. \<open>anchorLength\<close> is the length of \<^verbatim>\<open><a[^>]*><\/a>\<close> at the start of
  a string. \<open>sectionTail\<close> is the pattern from \<^verbatim>\<open>\s*\<close> on: \<open>q\<close> is the longest run without
  \<^verbatim>\<open><\<close> after the full stop, and \<^verbatim>\<open>\s+\<close> takes the white space it starts with, less its
  last character when \<open>q\<close> is white space only. The optional anchor is tried first, and
  the pattern without it when that fails.
\<close>

definition anchorLength :: "jsstring \<Rightarrow> nat option" where
  "anchorLength s =
     (if ci_prefix (js ''<a'') s \<and> ci_prefix (js ''></a>'') (dropWhile not_gt (drop 2 s))
      then Some (2 + length (takeWhile not_gt (drop 2 s)) + 5)
      else None)"

definition sectionTail :: "jsstring \<Rightarrow> (nat \<times> jsstring \<times> jsstring) option" where
  "sectionTail s =
     (case sectionLabel is_alpha (dropWhile is_space s) of
        None \<Rightarrow> None
      | Some (g1, rest) \<Rightarrow>
          (let q = takeWhile not_lt_sign rest; r5 = dropWhile not_lt_sign rest;
               w = takeWhile is_space q
           in if w \<noteq> [] \<and> (length w < length q \<or> 2 \<le> length w) \<and> ci_prefix (js ''</B>'') r5
              then Some (length (takeWhile is_space s) + length g1 + 1 + length q + 4, g1,
                         if length w < length q then drop (length w) q else [last q])
              else None))"

definition sectionPattern :: "jsstring \<Rightarrow> (nat \<times> jsstring \<times> jsstring) option" where
  "sectionPattern s =
     (if \<not> ci_prefix (js ''<B>'') s then None
      else
        (case (case anchorLength (drop 3 s) of
                 None \<Rightarrow> None
               | Some a \<Rightarrow> map_option (\<lambda>(n, g). (3 + a + n, g)) (sectionTail (drop (3 + a) s))) of
           Some m \<Rightarrow> Some m
         | None \<Rightarrow> map_option (\<lambda>(n, g). (3 + n, g)) (sectionTail (drop 3 s))))"

record chapter_pos =
  ch_pos :: nat
  ch_name :: jsstring

record section_pos =
  sm_pos :: nat
  sm_num :: jsstring
  sm_title :: jsstring

text \<open>The bodies of the loops that collect the chapters and the sections.\<close>

definition pushChapter :: "chapter_pos list \<Rightarrow> nat \<Rightarrow> jsstring \<Rightarrow> chapter_pos list" where
  "pushChapter chs pos g1 = chs @ [\<lparr> ch_pos = pos, ch_name = normalizeText (stripHtml g1) \<rparr>]"

definition pushSection :: "section_pos list \<Rightarrow> nat \<Rightarrow> jsstring \<times> jsstring \<Rightarrow> section_pos list" where
  "pushSection ss pos g =
     ss @ [\<lparr> sm_pos = pos, sm_num = trim (fst g), sm_title = normalizeText (stripHtml (snd g)) \<rparr>]"

definition sectionMatches :: "jsstring \<Rightarrow> section_pos list option" where
  "sectionMatches body = execLoop sectionPattern pushSection 0 body []"

text \<open>The chapters of \<^verbatim>\<open>parsePrivacyLawHtml\<close>: the chapter headings, then the article
  headings, sorted by position (the sort is stable); and those of the generic parser.\<close>

definition privacyChapters :: "jsstring \<Rightarrow> chapter_pos list option" where
  "privacyChapters body =
     do {
       chs \<leftarrow> execLoop (matchHeading (js ''CHAPTER'')) pushChapter 0 body [];
       chs' \<leftarrow> execLoop (matchHeading (js ''Article'')) pushChapter 0 body chs;
       Some (sort_key ch_pos chs')
     }"

definition genericChapters :: "jsstring \<Rightarrow> chapter_pos list option" where
  "genericChapters html = execLoop (matchHeading (js ''CHAPTER'')) pushChapter 0 html []"

text \<open>\<^verbatim>\<open>for (const ch of chapters) if (ch.pos < sec.pos) currentChapter = ch.name\<close>.\<close>

definition chapterScan :: "chapter_pos list \<Rightarrow> nat \<Rightarrow> jsstring \<Rightarrow> jsstring" where
  "chapterScan chapters pos cur = foldl (\<lambda>c ch. if ch_pos ch < pos then ch_name ch else c) cur chapters"

definition sectionContent :: "jsstring \<Rightarrow> section_pos \<Rightarrow> section_pos list \<Rightarrow> jsstring" where
  "sectionContent body sec rest =
     normalizeText (stripHtml (substring body (sm_pos sec)
       (case rest of [] \<Rightarrow> length body | nextSec # _ \<Rightarrow> sm_pos nextSec)))"

definition html_provision :: "section_pos \<Rightarrow> jsstring \<Rightarrow> jsstring \<Rightarrow> ParsedProvision" where
  "html_provision sec chap content =
     \<lparr> provision_ref = js ''sec'' @ sm_num sec,
       prov_chapter = or_undefined chap,
       prov_section = sm_num sec,
       prov_title = sm_title sec,
       prov_content = substring content 0 8000 \<rparr>"

text \<open>
  The loop over the section matches, from the match \<open>sec\<close> on; the state is
  \<^verbatim>\<open>currentChapter\<close> (here \<open>chap\<close>), the provisions and the definitions. \<open>definitional\<close> tells the
  sections whose definitions are extracted.
\<close>

fun html_loop ::
  "(jsstring \<Rightarrow> bool) \<Rightarrow> jsstring \<Rightarrow> chapter_pos list \<Rightarrow> section_pos list
     \<Rightarrow> jsstring \<times> ParsedProvision list \<times> ParsedDefinition list
     \<Rightarrow> (jsstring \<times> ParsedProvision list \<times> ParsedDefinition list) option"
where
  "html_loop definitional body chapters [] st = Some st"
| "html_loop definitional body chapters (sec # rest) st =
     (let chap = chapterScan chapters (sm_pos sec) (fst st);
          content = sectionContent body sec rest
      in if 10 < length content then
           do {
             ds \<leftarrow> (if definitional (sm_num sec)
                    then extractDefinitionsFromContent content (js ''sec'' @ sm_num sec) (snd (snd st))
                    else Some (snd (snd st)));
             html_loop definitional body chapters rest
               (chap, fst (snd st) @ [html_provision sec chap content], ds)
           }
         else html_loop definitional body chapters rest (chap, snd st))"

definition privacyDefinitional :: "jsstring \<Rightarrow> bool" where
  "privacyDefinitional num = (num = js ''3'' \<or> num = js ''7'' \<or> num = js ''17C'')"

definition privacyBody :: "jsstring \<Rightarrow> jsstring" where
  "privacyBody html = (case bodyMatch html of Some b \<Rightarrow> b | None \<Rightarrow> html)"

definition parsePrivacyLawHtml :: "jsstring \<Rightarrow> ActIndexEntry \<Rightarrow> ParsedAct option" where
  "parsePrivacyLawHtml html act =
     do {
       chapters \<leftarrow> privacyChapters (privacyBody html);
       secs \<leftarrow> sectionMatches (privacyBody html);
       out \<leftarrow> html_loop privacyDefinitional (privacyBody html) chapters secs ([], [], []);
       Some (mkAct act (fst (snd out)) (snd (snd out)))
     }"

definition parseIsraeliLawHtml :: "jsstring \<Rightarrow> ActIndexEntry \<Rightarrow> ParsedAct option" where
  "parseIsraeliLawHtml html act =
     (if entry_id act = js ''privacy-protection-law-1981'' then parsePrivacyLawHtml html act
      else
        do {
          chapters \<leftarrow> genericChapters html;
          secs \<leftarrow> sectionMatches html;
          out \<leftarrow> html_loop (\<lambda>num. False) html chapters secs ([], [], []);
          Some (mkAct act (fst (snd out)) (snd (snd out)))
        })"

section \<open>Auxiliary definitions\<close>

text \<open>
  Definitions the statements and the proofs use; none is part of the program.
\<close>

text \<open>
  A pattern makes progress when its matches are never empty. The loop over the matches of
  such a pattern ends: it runs its body on the list \<open>allMatches\<close> of the matches, each
  with the index where it starts.
\<close>

definition progress :: "(jsstring \<Rightarrow> (nat \<times> 'm) option) \<Rightarrow> bool" where
  "progress re = (\<forall>s n m. re s = Some (n, m) \<longrightarrow> 0 < n \<and> s \<noteq> [])"

definition runBody :: "('a \<Rightarrow> nat \<Rightarrow> 'm \<Rightarrow> 'a) \<Rightarrow> 'a \<Rightarrow> (nat \<times> 'm) list \<Rightarrow> 'a" where
  "runBody body acc ms = foldl (\<lambda>a pm. body a (fst pm) (snd pm)) acc ms"

function allMatches :: "(jsstring \<Rightarrow> (nat \<times> 'm) option) \<Rightarrow> nat \<Rightarrow> jsstring \<Rightarrow> (nat \<times> 'm) list" where
  "allMatches re pos s =
     (case re s of
        Some (n, m) \<Rightarrow> (if 0 < n \<and> s \<noteq> [] then (pos, m) # allMatches re (pos + n) (drop n s) else [])
      | None \<Rightarrow> (case s of [] \<Rightarrow> [] | c # t \<Rightarrow> allMatches re (pos + 1) t))"
  by pat_completeness auto
termination
  by (relation "measure (\<lambda>(re, pos, s). length s)") auto

declare allMatches.simps [simp del]

text \<open>The sections whose content is longer than 10 characters, each with its content.\<close>

fun retained :: "jsstring \<Rightarrow> section_pos list \<Rightarrow> (section_pos \<times> jsstring) list" where
  "retained body [] = []"
| "retained body (sec # rest) =
     (if 10 < length (sectionContent body sec rest) then [(sec, sectionContent body sec rest)] else [])
     @ retained body rest"

definition cl_kept :: "sec_acc \<Rightarrow> bool" where
  "cl_kept sec = (10 < length (normalizeText (sec_content sec)))"

definition bl_kept :: "basic_acc \<Rightarrow> bool" where
  "bl_kept sec = (10 < length (normalizeText (bl_content sec)))"

text \<open>The section matches, each with its content.\<close>

fun withContent :: "jsstring \<Rightarrow> section_pos list \<Rightarrow> (section_pos \<times> jsstring) list" where
  "withContent body [] = []"
| "withContent body (sec # rest) = (sec, sectionContent body sec rest) # withContent body rest"

text \<open>The line \<^verbatim>\<open>1. aaa...a\<close> with \<open>n\<close> letters.\<close>

definition long_line :: "nat \<Rightarrow> jsstring" where
  "long_line n = 49 # 46 # 32 # replicate n 97"

text \<open>
  The chapter of a section at \<open>pos\<close>, in the words of the specification: the name of the
  chapter whose offset is the greatest offset less than \<open>pos\<close>; none when no chapter has
  an offset less than \<open>pos\<close>.
\<close>

definition nearest_preceding :: "chapter_pos list \<Rightarrow> nat \<Rightarrow> jsstring option \<Rightarrow> bool" where
  "nearest_preceding chapters pos ch =
     (case ch of
        None \<Rightarrow> (\<forall>c \<in> set chapters. \<not> ch_pos c < pos)
      | Some name \<Rightarrow>
          (\<exists>c \<in> set chapters. ch_name c = name \<and> ch_pos c < pos
             \<and> (\<forall>c' \<in> set chapters. ch_pos c' < pos \<longrightarrow> ch_pos c' \<le> ch_pos c)))"

text \<open>
  The term and the definition of every match that passes the length test, in the order of
  the matches; and the same pairs of a list of definitions.
\<close>

definition acceptedPairs :: "(nat \<times> jsstring \<times> jsstring) list \<Rightarrow> (jsstring \<times> jsstring) list" where
  "acceptedPairs ms =
     map (\<lambda>pm. (termOf (fst (snd pm)), definitionOf (snd (snd pm))))
       (filter (\<lambda>pm. acceptable (termOf (fst (snd pm))) (definitionOf (snd (snd pm)))) ms)"

definition termPairs :: "ParsedDefinition list \<Rightarrow> (jsstring \<times> jsstring) list" where
  "termPairs ds = map (\<lambda>d. (def_term d, def_definition d)) ds"

text \<open>The matches in two steps, as for \<open>execLoop\<close>.\<close>

definition afterMatch ::
  "(jsstring \<Rightarrow> (nat \<times> 'm) option) \<Rightarrow> nat \<Rightarrow> jsstring \<Rightarrow> (nat \<times> 'm) option \<Rightarrow> (nat \<times> 'm) list"
where
  "afterMatch re pos s r =
     (case r of
        Some (n, m) \<Rightarrow> (if 0 < n \<and> s \<noteq> [] then (pos, m) # allMatches re (pos + n) (drop n s) else [])
      | None \<Rightarrow> (case s of [] \<Rightarrow> [] | c # t \<Rightarrow> allMatches re (pos + 1) t))"

section \<open>The matches a loop sees\<close>

lemma execLoop_allMatches:
  assumes "progress re"
  shows "execLoop re body pos s acc = Some (runBody body acc (allMatches re pos s))"
  using assms
proof (induction re pos s arbitrary: acc rule: allMatches.induct)
  case (1 re' pos s)
  note IH = "1.IH" and P = "1.prems"
  show ?case
  proof (cases "re' s")
    case None
    show ?thesis
    proof (cases s)
      case Nil
      then show ?thesis using None
        by (subst execLoop.simps, subst allMatches.simps) (simp add: runBody_def)
    next
      case (Cons c t)
      then show ?thesis using None IH(1) [OF None Cons P]
        by (subst execLoop.simps, subst allMatches.simps) simp
    qed
  next
    case (Some nm)
    obtain n m where nm: "nm = (n, m)" by (cases nm)
    from P Some nm have T: "0 < n \<and> s \<noteq> []" by (auto simp: progress_def)
    show ?thesis
      using IH(2) [OF Some nm [symmetric] T P] Some nm T
      by (subst execLoop.simps, subst allMatches.simps) (simp add: runBody_def)
  qed
qed

lemma allMatches_from:
  "pm \<in> set (allMatches re pos s) \<Longrightarrow> pos \<le> fst pm \<and> (\<exists>s' n. re s' = Some (n, snd pm))"
proof (induction re pos s rule: allMatches.induct)
  case (1 re pos s)
  show ?case
  proof (cases "re s")
    case None
    then show ?thesis using 1
      by (subst (asm) (3) allMatches.simps) (fastforce split: list.splits)
  next
    case (Some nm)
    then show ?thesis using 1
      by (subst (asm) (3) allMatches.simps) (fastforce split: if_splits prod.splits)
  qed
qed

lemma allMatches_sorted: "sorted_wrt (<) (map fst (allMatches re pos s))"
proof (induction re pos s rule: allMatches.induct)
  case (1 re pos s)
  show ?case
  proof (cases "re s")
    case None
    then show ?thesis using 1
      by (subst allMatches.simps) (auto split: list.splits)
  next
    case (Some nm)
    then show ?thesis using 1
      by (subst allMatches.simps) (fastforce split: if_splits prod.splits dest: allMatches_from)
  qed
qed

section \<open>Every loop ends\<close>

lemma progress_matchQuoted: "progress (matchQuoted op cl dr ns)"
  by (auto simp: progress_def matchQuoted_def Let_def split: list.splits if_splits)

lemma progress_defPattern: "progress defPattern"
  by (simp add: defPattern_def progress_matchQuoted)

lemma progress_plainPattern1: "progress plainPattern1"
  by (simp add: plainPattern1_def progress_matchQuoted)

lemma progress_plainPattern2: "progress plainPattern2"
  by (simp add: plainPattern2_def progress_matchQuoted)

lemma ci_prefix_nonempty: "ci_prefix p s \<Longrightarrow> p \<noteq> [] \<Longrightarrow> s \<noteq> []"
  by (auto simp: ci_prefix_def)

lemma js_B_nonempty: "js ''<B>'' \<noteq> []"
  by (simp add: js_def)

lemma progress_matchHeading: "progress (matchHeading kw)"
  by (auto simp: progress_def matchHeading_def Let_def split: if_splits dest: ci_prefix_nonempty [OF _ js_B_nonempty])

lemma progress_sectionPattern: "progress sectionPattern"
  by (auto simp: progress_def sectionPattern_def split: if_splits option.splits dest: ci_prefix_nonempty [OF _ js_B_nonempty])

lemma extractDefinitionsFromContent_eq:
  "extractDefinitionsFromContent content src ds =
     Some (runBody (contentStep src) ds (allMatches defPattern 0 content))"
  by (simp add: extractDefinitionsFromContent_def execLoop_allMatches progress_defPattern)

lemma extractDefinitionsFromPlainText_eq:
  "extractDefinitionsFromPlainText content src ds =
     Some (snd (runBody (plainStep src)
                  (runBody (plainStep src) ({}, ds) (allMatches plainPattern1 0 content))
                  (allMatches plainPattern2 0 content)))"
  by (simp add: extractDefinitionsFromPlainText_def execLoop_allMatches
        progress_plainPattern1 progress_plainPattern2)

lemma sectionMatches_eq:
  "sectionMatches body = Some (runBody pushSection [] (allMatches sectionPattern 0 body))"
  by (simp add: sectionMatches_def execLoop_allMatches progress_sectionPattern)

lemma genericChapters_eq:
  "genericChapters body = Some (runBody pushChapter [] (allMatches (matchHeading (js ''CHAPTER'')) 0 body))"
  by (simp add: genericChapters_def execLoop_allMatches progress_matchHeading)

lemma privacyChapters_eq:
  "privacyChapters body =
     Some (sort_key ch_pos
       (runBody pushChapter
          (runBody pushChapter [] (allMatches (matchHeading (js ''CHAPTER'')) 0 body))
          (allMatches (matchHeading (js ''Article'')) 0 body)))"
  by (simp add: privacyChapters_def execLoop_allMatches progress_matchHeading)



lemma lookBack_total:
  "j < int (length lines) \<Longrightarrow> \<exists>t. lookBack lines i j title = Some t"
proof (induction lines i j title rule: lookBack.induct)
  case (1 lines i j title)
  show ?case
  proof (cases "max 0 (i - 4) \<le> j")
    case False
    show ?thesis by (subst lookBack.simps) (simp only: False if_False, simp)
  next
    case True
    with 1(3) obtain l where l: "line_at lines j = Some l"
      by (auto simp: line_at_def)
    show ?thesis
      using l 1(1) [OF True l refl] 1(2) [OF True l refl] 1(3)
      by (subst lookBack.simps) (simp only: True if_True, auto simp: Let_def)
  qed
qed

lemma bl_step_total: "i < length lines \<Longrightarrow> \<exists>r. bl_step lines i st line = Some r"
  using lookBack_total [of "int i - 1" lines "int i" "[]"]
  by (auto simp: bl_step_def split: option.splits prod.splits)

lemma bl_loop_total: "\<exists>r. bl_loop lines i st = Some r"
proof (induction lines i st rule: bl_loop.induct)
  case (1 lines i st)
  show ?case
  proof (cases "i < length lines")
    case False
    then show ?thesis by (subst bl_loop.simps) simp
  next
    case True
    then obtain raw where raw: "line_at lines (int i) = Some raw"
      by (auto simp: line_at_def)
    from bl_step_total [OF True] obtain st' where st': "bl_step lines i st (trim raw) = Some st'"
      by blast
    show ?thesis
      using True raw st' 1 [OF True raw st']
      by (subst bl_loop.simps) simp
  qed
qed

section \<open>The provisions a parser emits\<close>

lemma cl_emit_provisions:
  "\<exists>ds'. cl_emit secs out =
     Some (fst out @ map (\<lambda>sec. cl_provision sec (normalizeText (sec_content sec))) (filter cl_kept secs), ds')"
proof (induction secs arbitrary: out)
  case Nil
  show ?case by (cases out) simp
next
  case (Cons sec rest)
  show ?case
  proof (cases "cl_kept sec")
    case False
    then show ?thesis using Cons [of out] by (simp add: cl_kept_def)
  next
    case True
    obtain ds where ds:
      "(if sec_num sec = js ''1''
        then extractDefinitionsFromPlainText (normalizeText (sec_content sec)) (js ''sec'' @ sec_num sec) (snd out)
        else Some (snd out)) = Some ds"
      by (cases "sec_num sec = js ''1''") (simp_all add: extractDefinitionsFromPlainText_eq)
    show ?thesis
      using True ds Cons [of "(fst out @ [cl_provision sec (normalizeText (sec_content sec))], ds)"]
      by (simp add: cl_kept_def Let_def)
  qed
qed

lemma bl_emit_provisions:
  "bl_emit secs out = out @ map (\<lambda>sec. bl_provision sec (normalizeText (bl_content sec))) (filter bl_kept secs)"
  by (induction secs arbitrary: out) (simp_all add: bl_kept_def Let_def)

lemma chapterScan_snoc:
  "chapterScan (chs @ [c]) pos cur = (if ch_pos c < pos then ch_name c else chapterScan chs pos cur)"
  by (simp add: chapterScan_def)

lemma chapterScan_none: "\<forall>c \<in> set chs. \<not> ch_pos c < pos \<Longrightarrow> chapterScan chs pos cur = cur"
  by (induction chs rule: rev_induct) (simp_all add: chapterScan_snoc, simp add: chapterScan_def)

lemma chapterScan_some:
  "\<exists>c \<in> set chs. ch_pos c < pos \<Longrightarrow> chapterScan chs pos cur = chapterScan chs pos cur'"
  by (induction chs rule: rev_induct) (auto simp: chapterScan_snoc)

lemma chapterScan_carry:
  assumes "p0 \<le> pos"
  shows "chapterScan chs pos (chapterScan chs p0 []) = chapterScan chs pos []"
proof (cases "\<exists>c \<in> set chs. ch_pos c < pos")
  case True
  then show ?thesis by (rule chapterScan_some)
next
  case False
  with assms have "\<forall>c \<in> set chs. \<not> ch_pos c < p0" by auto
  then show ?thesis using False by (simp add: chapterScan_none)
qed

lemma html_loop_provisions:
  assumes "sorted (map sm_pos secs)" and "\<forall>sec \<in> set secs. p0 \<le> sm_pos sec"
  shows "\<exists>cur' ds'. html_loop d body chs secs (chapterScan chs p0 [], ps, ds) =
     Some (cur', ps @ map (\<lambda>(sec, content). html_provision sec (chapterScan chs (sm_pos sec) []) content)
                         (retained body secs), ds')"
  using assms
proof (induction secs arbitrary: p0 ps ds)
  case Nil
  show ?case by simp
next
  case (Cons sec rest)
  have le: "p0 \<le> sm_pos sec" using Cons.prems by simp
  have nxt: "sorted (map sm_pos rest)" "\<forall>s \<in> set rest. sm_pos sec \<le> sm_pos s"
    using Cons.prems by auto
  note carry = chapterScan_carry [OF le, of chs]
  show ?case
  proof (cases "10 < length (sectionContent body sec rest)")
    case False
    then show ?thesis
      using Cons.IH [OF nxt, of ps ds] by (simp add: Let_def carry)
  next
    case True
    let ?p = "ps @ [html_provision sec (chapterScan chs (sm_pos sec) []) (sectionContent body sec rest)]"
    let ?ds1 = "runBody (contentStep (js ''sec'' @ sm_num sec)) ds
                  (allMatches defPattern 0 (sectionContent body sec rest))"
    show ?thesis
    proof (cases "d (sm_num sec)")
      case True
      with \<open>10 < length (sectionContent body sec rest)\<close> Cons.IH [OF nxt, of ?p ?ds1]
      show ?thesis
        by (simp add: Let_def carry extractDefinitionsFromContent_eq)
    next
      case False
      with \<open>10 < length (sectionContent body sec rest)\<close> Cons.IH [OF nxt, of ?p ds]
      show ?thesis
        by (simp add: Let_def carry)
    qed
  qed
qed

lemma chapterScan_zero: "chapterScan chs 0 [] = []"
  by (simp add: chapterScan_none)

lemma runBody_snoc: "runBody body acc (ms @ [pm]) = body (runBody body acc ms) (fst pm) (snd pm)"
  by (simp add: runBody_def)

lemma pushSection_positions: "map sm_pos (runBody pushSection acc ms) = map sm_pos acc @ map fst ms"
  by (induction ms rule: rev_induct) (simp_all add: runBody_snoc pushSection_def, simp add: runBody_def)

lemma pushChapter_positions: "map ch_pos (runBody pushChapter acc ms) = map ch_pos acc @ map fst ms"
  by (induction ms rule: rev_induct) (simp_all add: runBody_snoc pushChapter_def, simp add: runBody_def)

lemma strict_sorted_imp_sorted: "sorted_wrt (<) (xs :: nat list) \<Longrightarrow> sorted xs"
  by (induction xs) (auto simp: less_imp_le)

lemma sectionMatches_sorted: "sectionMatches body = Some secs \<Longrightarrow> sorted (map sm_pos secs)"
  using strict_sorted_imp_sorted [OF allMatches_sorted [of sectionPattern 0 body]]
  by (auto simp: sectionMatches_eq pushSection_positions)

lemma retained_filter:
  "retained body secs = filter (\<lambda>sc. 10 < length (snd sc)) (withContent body secs)"
  by (induction secs) simp_all

lemma computer_provisions:
  "\<exists>ds. parseComputerLawText text act =
     Some (mkAct act
       (map (\<lambda>sec. cl_provision sec (normalizeText (sec_content sec)))
          (filter cl_kept (cl_sections (split_lines (lawText text))))) ds)"
proof -
  from cl_emit_provisions [of "cl_sections (split_lines (lawText text))" "([], [])"]
  obtain ds where "cl_emit (cl_sections (split_lines (lawText text))) ([], []) =
     Some (map (\<lambda>sec. cl_provision sec (normalizeText (sec_content sec)))
            (filter cl_kept (cl_sections (split_lines (lawText text)))), ds)"
    by auto
  then show ?thesis by (simp add: parseComputerLawText_def) blast
qed

lemma basic_provisions:
  "\<exists>st. bl_loop (split_lines text) 0 ([], None) = Some st \<and>
     parseBasicLawText text act =
       Some (mkAct act
         (map (\<lambda>sec. bl_provision sec (normalizeText (bl_content sec)))
            (filter bl_kept (pushCurrent (fst st) (snd st)))) [])"
proof -
  obtain st where st: "bl_loop (split_lines text) 0 ([], None) = Some st"
    using bl_loop_total by blast
  then show ?thesis by (simp add: parseBasicLawText_def bl_emit_provisions)
qed

lemma html_loop_from_start:
  assumes "sectionMatches body = Some secs"
  shows "\<exists>cur' ds'. html_loop d body chs secs ([], [], []) =
     Some (cur', map (\<lambda>(sec, content). html_provision sec (chapterScan chs (sm_pos sec) []) content)
                   (retained body secs), ds')"
  using html_loop_provisions [OF sectionMatches_sorted [OF assms], of 0 d body chs "[]" "[]"]
  by (simp add: chapterScan_zero)

lemma privacy_provisions:
  "\<exists>chs secs ds. privacyChapters (privacyBody html) = Some chs
     \<and> sectionMatches (privacyBody html) = Some secs
     \<and> parsePrivacyLawHtml html act =
         Some (mkAct act
           (map (\<lambda>(sec, content). html_provision sec (chapterScan chs (sm_pos sec) []) content)
              (retained (privacyBody html) secs)) ds)"
proof -
  obtain chs where chs: "privacyChapters (privacyBody html) = Some chs"
    by (simp add: privacyChapters_eq)
  obtain secs where secs: "sectionMatches (privacyBody html) = Some secs"
    by (simp add: sectionMatches_eq)
  from html_loop_from_start [OF secs, of privacyDefinitional chs]
  obtain cur' ds' where "html_loop privacyDefinitional (privacyBody html) chs secs ([], [], []) =
     Some (cur', map (\<lambda>(sec, content). html_provision sec (chapterScan chs (sm_pos sec) []) content)
                   (retained (privacyBody html) secs), ds')"
    by blast
  with chs secs show ?thesis by (simp add: parsePrivacyLawHtml_def) blast
qed

lemma generic_provisions:
  assumes "entry_id act \<noteq> js ''privacy-protection-law-1981''"
  shows "\<exists>chs secs ds. genericChapters html = Some chs
     \<and> sectionMatches html = Some secs
     \<and> parseIsraeliLawHtml html act =
         Some (mkAct act
           (map (\<lambda>(sec, content). html_provision sec (chapterScan chs (sm_pos sec) []) content)
              (retained html secs)) ds)"
proof -
  obtain chs where chs: "genericChapters html = Some chs"
    by (simp add: genericChapters_eq)
  obtain secs where secs: "sectionMatches html = Some secs"
    by (simp add: sectionMatches_eq)
  from html_loop_from_start [OF secs, of "\<lambda>num. False" chs]
  obtain cur' ds' where "html_loop (\<lambda>num. False) html chs secs ([], [], []) =
     Some (cur', map (\<lambda>(sec, content). html_provision sec (chapterScan chs (sm_pos sec) []) content)
                   (retained html secs), ds')"
    by blast
  with chs secs assms show ?thesis by (simp add: parseIsraeliLawHtml_def) blast
qed

lemma privacy_route:
  "entry_id act = js ''privacy-protection-law-1981'' \<Longrightarrow>
     parseIsraeliLawHtml html act = parsePrivacyLawHtml html act"
  by (simp add: parseIsraeliLawHtml_def)

section \<open>Evaluation\<close>

lemma execLoop_code [code]:
  "execLoop re body pos s acc = afterExec re body pos s acc (re s)"
  by (subst execLoop.simps) (simp add: afterExec_def)

lemma afterExec_code [code]:
  "afterExec re body pos s acc (Some (n, m)) =
     (if n = 0 then execLoop re body pos s (body acc pos m)
      else execLoop re body (pos + n) (drop n s) (body acc pos m))"
  "afterExec re body pos [] acc None = Some acc"
  "afterExec re body pos (c # t) acc None = execLoop re body (pos + 1) t acc"
  by (simp_all add: afterExec_def)

lemma allMatches_eval:
  "allMatches re pos s = afterMatch re pos s (re s)"
  "afterMatch re pos s (Some (n, m)) =
     (if 0 < n \<and> s \<noteq> [] then (pos, m) # allMatches re (pos + n) (drop n s) else [])"
  "afterMatch re pos [] None = []"
  "afterMatch re pos (c # t) None = allMatches re (pos + 1) t"
  by (subst allMatches.simps, simp_all add: afterMatch_def)

text \<open>The definitions a concrete run unfolds.\<close>

lemmas char_defs = is_space_def is_lt_def not_lt_def is_digit_def is_lower_def is_upper_def
  is_alpha_def is_word_def upper_def is_dash_def not_gt_def not_lt_sign_def not_colon_def
  straight_def straight_or_left_def straight_or_right_def

lemma ci_prefix_eval:
  "ci_prefix [] s = True"
  "ci_prefix (p # ps) [] = False"
  "ci_prefix (p # ps) (c # cs) = (upper p = upper c \<and> ci_prefix ps cs)"
  by (auto simp: ci_prefix_def)

lemmas str_defs = js_def ci_prefix_eval ci_equal_def trim_def normalizeText_def substring_def
  or_undefined_def Let_def

lemmas html_defs = stripHtml_def decodeEntities_def tagThenSpace_def tableEnd_def bodyAt_def
  matchHeading_def anchorLength_def sectionTail_def sectionPattern_def sectionLabel_def
  pushChapter_def pushSection_def sectionMatches_def privacyChapters_def genericChapters_def
  chapterScan_def sectionContent_def html_provision_def privacyDefinitional_def
  privacyBody_def parsePrivacyLawHtml_def parseIsraeliLawHtml_def execLoop_code afterExec_code

lemmas line_defs = sectionLabel_def chapterMatch_def sectionAloneMatch_def
  sectionInlineMatch_def ci_word_space_def reChapterSp_def reGo_def reSectionNum_def
  reClauseSp_def reStar_def reContents_def reDigits_def reComputersLaw_def rePublishedIn_def
  reStarOnly_def reComputersLaw1995_def titleCandidateInline_def titleCandidateAlone_def

lemmas def_defs = matchQuoted_def def_body_def defPattern_def plainPattern1_def
  plainPattern2_def drop_final_semi_def termOf_def definitionOf_def has_term_def
  acceptable_def contentStep_def plainStep_def extractDefinitionsFromContent_def
  extractDefinitionsFromPlainText_def execLoop_code afterExec_code

lemmas cl_defs = cl_init_def pushCurrent_def cl_step_def cl_sections_def cl_provision_def
  lawText_def parseComputerLawText_def

lemma bl_loop_step:
  "i < length lines \<Longrightarrow>
   bl_loop lines i st = bl_step lines i st (trim (lines ! i)) \<bind> bl_loop lines (i + 1)"
  by (subst bl_loop.simps) (simp add: line_at_def split: option.splits)

lemma bl_loop_done: "\<not> i < length lines \<Longrightarrow> bl_loop lines i st = Some st"
  by (subst bl_loop.simps) simp

lemmas bl_defs = bl_loop_step bl_loop_done bl_step_def lookBack.simps line_at_def
  sectionMatch_def reLabelSpace_def reAmendment_def reHeaderFooter_def bl_provision_def
  parseBasicLawText_def pushCurrent_def sectionLabel_def

section \<open>The claims\<close>

text \<open>
  C3. \<^verbatim>\<open>parseComputerLawText\<close> on the text
  \<^verbatim>\<open>"Marginal Title\n\n1.\n\nBody text here that is long enough.\n\n2. Inline body text also long enough."\<close>
  returns exactly two provisions, in this order: section 1 with the title
  \<^verbatim>\<open>Marginal Title\<close>, taken from the marginal notes, and the content
  \<^verbatim>\<open>Body text here that is long enough.\<close>; and section 2 with an empty title and the whole
  normalized line \<^verbatim>\<open>2. Inline body text also long enough.\<close> as its content. No chapter
  and no definition is found.
\<close>

theorem statute_scenario:
  "parseComputerLawText
     (js ''Marginal Title'' @ [10, 10] @ js ''1.'' @ [10, 10]
        @ js ''Body text here that is long enough.'' @ [10, 10]
        @ js ''2. Inline body text also long enough.'') act =
   Some (mkAct act
     [\<lparr> provision_ref = js ''sec1'', prov_chapter = None, prov_section = js ''1'',
         prov_title = js ''Marginal Title'',
         prov_content = js ''Body text here that is long enough.'' \<rparr>,
      \<lparr> provision_ref = js ''sec2'', prov_chapter = None, prov_section = js ''2'',
         prov_title = [],
         prov_content = js ''2. Inline body text also long enough.'' \<rparr>]
     [])"
  by (simp add: char_defs str_defs line_defs cl_defs def_defs)

text \<open>
  C9. Every provision \<^verbatim>\<open>parseBasicLawText\<close> returns has no chapter, whatever the text and
  the act: the call returns, and \<^verbatim>\<open>chapter\<close> is \<^verbatim>\<open>undefined\<close> in each provision. The
  witness is a text with a line \<^verbatim>\<open>Chapter One: ...\<close>, which ends up in the title.
\<close>

theorem basic_law_no_chapter:
  "\<exists>r. parseBasicLawText text act = Some r \<and> list_all (\<lambda>p. prov_chapter p = None) (provisions r)"
proof -
  obtain st where st: "bl_loop (split_lines text) 0 ([], None) = Some st"
    using bl_loop_total by blast
  have "list_all (\<lambda>p. prov_chapter p = None)
          (map (\<lambda>sec. bl_provision sec (normalizeText (bl_content sec))) secs)" for secs
    by (induction secs) (simp_all add: bl_provision_def)
  then show ?thesis
    by (simp add: parseBasicLawText_def st bl_emit_provisions mkAct_def)
qed

theorem basic_law_no_chapter_witness:
  "parseBasicLawText (js ''Chapter One: Basic principles'' @ [10] @ js ''1. Every person is free.'')
       basicLawEntry =
     Some (mkAct basicLawEntry
       [\<lparr> provision_ref = js ''sec1'', prov_chapter = None, prov_section = js ''1'',
           prov_title = js ''Chapter One: Basic principles'',
           prov_content = js ''1. Every person is free.'' \<rparr>] [])
   \<and> list_all (\<lambda>p. prov_chapter p = None)
        (provisions (the (parseBasicLawText
           (js ''Chapter One: Basic principles'' @ [10] @ js ''1. Every person is free.'')
           basicLawEntry)))"
  using basic_law_no_chapter
    [of "js ''Chapter One: Basic principles'' @ [10] @ js ''1. Every person is free.''" basicLawEntry]
  by (simp add: char_defs str_defs bl_defs mkAct_def)

lemma indexOf_Some:
  "indexOf pat s = Some i \<Longrightarrow>
     i \<le> length s \<and> prefix pat (drop i s) \<and> (\<forall>j<i. \<not> prefix pat (drop j s))"
proof (induction s arbitrary: i)
  case Nil
  then show ?case by (simp split: if_splits)
next
  case (Cons c cs)
  show ?case
  proof (cases "prefix pat (c # cs)")
    case True
    with Cons.prems show ?thesis by simp
  next
    case False
    with Cons.prems obtain k where k: "indexOf pat cs = Some k" "i = Suc k" by auto
    from Cons.IH [OF k(1)] have IH: "k \<le> length cs" "prefix pat (drop k cs)"
      "\<forall>j<k. \<not> prefix pat (drop j cs)" by auto
    have "\<not> prefix pat (drop j (c # cs))" if "j < Suc k" for j
      using that False IH(3) by (cases j) auto
    with IH k show ?thesis by simp
  qed
qed

lemma indexOf_None: "indexOf pat s = None \<Longrightarrow> \<not> prefix pat (drop j s)"
proof (induction s arbitrary: j)
  case Nil
  then show ?case by (simp split: if_splits)
next
  case (Cons c cs)
  then show ?case by (cases j) (auto split: if_splits)
qed

lemma indexOf_at_start: "prefix pat s \<Longrightarrow> indexOf pat s = Some 0"
  by (cases s) auto

lemma lawText_idem: "lawText (lawText text) = lawText text"
proof (cases "indexOf (js ''Computers Law, 5755'') text")
  case None
  then show ?thesis by (simp add: lawText_def)
next
  case (Some i)
  from indexOf_Some [OF Some] have "prefix (js ''Computers Law, 5755'') (drop i text)" by simp
  then have "indexOf (js ''Computers Law, 5755'') (drop i text) = Some 0"
    by (rule indexOf_at_start)
  with Some show ?thesis by (simp add: lawText_def)
qed

text \<open>
  C10. When the text contains \<^verbatim>\<open>Computers Law, 5755\<close>, \<^verbatim>\<open>parseComputerLawText\<close> parses the
  suffix that starts at its first occurrence, at index \<open>i\<close>: the text parsed is
  \<open>drop i text\<close>, and the result is the result for that suffix alone, so nothing before
  the occurrence reaches the output. When the text does not contain it, the whole text is
  parsed. The witness is a text whose table of contents holds a section heading before
  the marker.
\<close>

theorem law_text_starts_at_marker:
  "(case indexOf (js ''Computers Law, 5755'') text of
      Some i \<Rightarrow>
        i \<le> length text \<and> prefix (js ''Computers Law, 5755'') (drop i text)
        \<and> (\<forall>j<i. \<not> prefix (js ''Computers Law, 5755'') (drop j text))
        \<and> lawText text = drop i text
        \<and> parseComputerLawText text act = parseComputerLawText (drop i text) act
    | None \<Rightarrow>
        (\<forall>j. \<not> prefix (js ''Computers Law, 5755'') (drop j text)) \<and> lawText text = text)"
proof (cases "indexOf (js ''Computers Law, 5755'') text")
  case None
  then show ?thesis using indexOf_None [OF None] by (simp add: lawText_def)
next
  case (Some i)
  have lt: "lawText text = drop i text" using Some by (simp add: lawText_def)
  have "lawText (drop i text) = lawText text"
    using lawText_idem [of "text"] by (simp add: lt)
  then have "parseComputerLawText text act = parseComputerLawText (drop i text) act"
    by (simp add: parseComputerLawText_def)
  then show ?thesis using Some indexOf_Some [OF Some] lt by simp
qed

theorem law_text_starts_at_marker_witness:
  "indexOf (js ''Computers Law, 5755'')
     (js ''Section 1'' @ [10] @ js ''1. Contents entry of the table'' @ [10]
        @ js ''Computers Law, 5755-1995'' @ [10] @ js ''1. In this Law a computer is a device.'') = Some 41
   \<and> parseComputerLawText
     (js ''Section 1'' @ [10] @ js ''1. Contents entry of the table'' @ [10]
        @ js ''Computers Law, 5755-1995'' @ [10] @ js ''1. In this Law a computer is a device.'')
     computerLawEntry =
     parseComputerLawText
       (js ''Computers Law, 5755-1995'' @ [10] @ js ''1. In this Law a computer is a device.'')
       computerLawEntry
   \<and> parseComputerLawText
     (js ''Section 1'' @ [10] @ js ''1. Contents entry of the table'' @ [10]
        @ js ''Computers Law, 5755-1995'' @ [10] @ js ''1. In this Law a computer is a device.'')
     computerLawEntry =
     Some (mkAct computerLawEntry
       [\<lparr> provision_ref = js ''sec1'', prov_chapter = None, prov_section = js ''1'',
           prov_title = [], prov_content = js ''1. In this Law a computer is a device.'' \<rparr>] [])"
proof -
  have i: "indexOf (js ''Computers Law, 5755'')
     (js ''Section 1'' @ [10] @ js ''1. Contents entry of the table'' @ [10]
        @ js ''Computers Law, 5755-1995'' @ [10] @ js ''1. In this Law a computer is a device.'') = Some 41"
    by (simp add: js_def)
  have p: "parseComputerLawText
       (js ''Computers Law, 5755-1995'' @ [10] @ js ''1. In this Law a computer is a device.'')
       computerLawEntry =
     Some (mkAct computerLawEntry
       [\<lparr> provision_ref = js ''sec1'', prov_chapter = None, prov_section = js ''1'',
           prov_title = [], prov_content = js ''1. In this Law a computer is a device.'' \<rparr>] [])"
    by (simp add: char_defs str_defs line_defs cl_defs def_defs)
  have d: "drop 41
     (js ''Section 1'' @ [10] @ js ''1. Contents entry of the table'' @ [10]
        @ js ''Computers Law, 5755-1995'' @ [10] @ js ''1. In this Law a computer is a device.'') =
     js ''Computers Law, 5755-1995'' @ [10] @ js ''1. In this Law a computer is a device.''"
    by (simp add: js_def)
  have "parseComputerLawText
     (js ''Section 1'' @ [10] @ js ''1. Contents entry of the table'' @ [10]
        @ js ''Computers Law, 5755-1995'' @ [10] @ js ''1. In this Law a computer is a device.'')
     computerLawEntry =
     parseComputerLawText
       (js ''Computers Law, 5755-1995'' @ [10] @ js ''1. In this Law a computer is a device.'')
       computerLawEntry"
    using law_text_starts_at_marker
      [of "js ''Section 1'' @ [10] @ js ''1. Contents entry of the table'' @ [10]
        @ js ''Computers Law, 5755-1995'' @ [10] @ js ''1. In this Law a computer is a device.''"
        computerLawEntry]
    by (simp only: i option.case d)
  then show ?thesis
    using i p by (simp only: simp_thms)
qed

lemma ci_prefix_hd:
  "ci_prefix (p # ps) s \<Longrightarrow> s \<noteq> [] \<and> upper (hd s) = upper p"
  by (cases s) (auto simp: ci_prefix_def)

lemma sectionLabel_hd_digit:
  "sectionLabel letter line = Some r \<Longrightarrow> line \<noteq> [] \<and> is_digit (hd line)"
  by (cases line) (auto simp: sectionLabel_def Let_def split: if_splits list.splits)

lemma chapterMatch_no_label:
  "sectionLabel letter line = Some r \<Longrightarrow> \<not> chapterMatch line"
proof
  assume a: "sectionLabel letter line = Some r" and c: "chapterMatch line"
  from c have "ci_prefix (js ''Chapter'') line" by (simp add: chapterMatch_def)
  then have "upper (hd line) = 67"
    using ci_prefix_hd [of 67 "js ''hapter''" line] by (simp add: js_def upper_def is_lower_def)
  moreover from sectionLabel_hd_digit [OF a] have "is_digit (hd line)" by simp
  ultimately show False
    by (auto simp: upper_def is_lower_def is_digit_def split: if_splits)
qed

lemma space_then_any_le: "space_then_any lo n r = Some k \<Longrightarrow> k \<le> n"
  by (induction lo n r rule: space_then_any.induct) (auto split: if_splits)

lemma published_not_space:
  assumes "rePublishedIn g2"
  shows "g2 \<noteq> [] \<and> \<not> is_space (hd g2)"
proof -
  from assms have "upper (hd g2) = 80 \<and> g2 \<noteq> []"
    using ci_prefix_hd [of 80 "js ''ublished in''" g2]
    by (simp add: rePublishedIn_def js_def upper_def is_lower_def)
  then show ?thesis
    by (auto simp: upper_def is_lower_def is_space_def split: if_splits)
qed

lemma inline_published_not_alone:
  assumes "sectionInlineMatch line = Some (g0, g1, g2)" and "rePublishedIn g2"
  shows "sectionAloneMatch line = None"
proof -
  from assms(1) obtain rest k where
    lab: "sectionLabel is_alpha line = Some (g1, rest)" and
    g2: "g2 = takeWhile not_lt (drop k rest)"
    by (auto simp: sectionInlineMatch_def Let_def split: option.splits prod.splits)
  from published_not_space [OF assms(2)] have ne: "g2 \<noteq> []" "\<not> is_space (hd g2)" by auto
  from ne(1) g2 have "hd g2 \<in> set g2" by simp
  then have "hd g2 \<in> set rest"
    unfolding g2 by (meson in_set_dropD set_takeWhileD)
  with ne(2) have "\<not> list_all is_space rest" by (auto simp: list_all_iff)
  with lab show ?thesis by (simp add: sectionAloneMatch_def)
qed

text \<open>
  C8, as amended. In \<^verbatim>\<open>parseComputerLawText\<close>, a line of the form label, full stop, white
  space and trailing text (a match of the section-inline pattern) whose trailing text begins
  with \<^verbatim>\<open>Published in\<close>, in any case, starts no section and is discarded: the turn of the
  loop leaves every variable as it was (the current section and its content, the finished
  sections, the chapter and the marginal notes), so the sections collected from the lines
  are those collected without the line. Its text is appended to no content.
\<close>

theorem footnote_line_is_discarded:
  assumes "sectionInlineMatch (trim raw) = Some (g0, g1, g2)" and "rePublishedIn g2"
  shows "cl_step st raw = st
         \<and> foldl cl_step st (before @ raw # after) = foldl cl_step st (before @ after)
         \<and> cl_sections (before @ raw # after) = cl_sections (before @ after)"
proof -
  from assms(1) obtain rest where lab: "sectionLabel is_alpha (trim raw) = Some (g1, rest)"
    by (auto simp: sectionInlineMatch_def Let_def split: option.splits prod.splits)
  have 1: "\<not> chapterMatch (trim raw)" by (rule chapterMatch_no_label [OF lab])
  have 2: "sectionAloneMatch (trim raw) = None" by (rule inline_published_not_alone [OF assms])
  have step: "cl_step st' raw = st'" for st'
    using 1 2 assms by (simp add: cl_step_def Let_def)
  then show ?thesis by (simp add: cl_sections_def)
qed

theorem footnote_line_is_discarded_witness:
  "sectionInlineMatch (trim (js ''2. Published in Sefer Ha-Chukkim'')) =
     Some (js ''2. Published in Sefer Ha-Chukkim'', js ''2'', js ''Published in Sefer Ha-Chukkim'')
   \<and> rePublishedIn (js ''Published in Sefer Ha-Chukkim'')
   \<and> cl_step (cl_step cl_init (js ''1. Some section content here''))
        (js ''2. Published in Sefer Ha-Chukkim'') =
      cl_step cl_init (js ''1. Some section content here'')
   \<and> cl_sections [js ''1. Some section content here'', js ''2. Published in Sefer Ha-Chukkim'',
        js ''and more text''] =
      cl_sections [js ''1. Some section content here'', js ''and more text'']"
proof -
  have m: "sectionInlineMatch (trim (js ''2. Published in Sefer Ha-Chukkim'')) =
     Some (js ''2. Published in Sefer Ha-Chukkim'', js ''2'', js ''Published in Sefer Ha-Chukkim'')"
    by (simp add: char_defs str_defs line_defs)
  have p: "rePublishedIn (js ''Published in Sefer Ha-Chukkim'')"
    by (simp add: char_defs str_defs line_defs)
  show ?thesis
    using footnote_line_is_discarded [OF m p, of "cl_step cl_init (js ''1. Some section content here'')"
      "[js ''1. Some section content here'']" "[js ''and more text'']"] m p
    by simp
qed

text \<open>
  C8 as stated fails: with section 1 in progress, the line \<^verbatim>\<open>2. Published in Sefer Ha-Chukkim\<close>
  is not appended to the content of the section, which stays \<^verbatim>\<open>1. Some section content here\<close>.
\<close>

theorem footnote_line_counterexample:
  "currentSection (foldl cl_step cl_init
      [js ''1. Some section content here'', js ''2. Published in Sefer Ha-Chukkim'']) =
     Some \<lparr> sec_num = js ''1'', sec_title = [], sec_content = js ''1. Some section content here'',
            sec_chapter = [] \<rparr>
   \<and> js ''1. Some section content here'' \<noteq>
       js ''1. Some section content here'' @ 32 # normalizeText (js ''2. Published in Sefer Ha-Chukkim'')
   \<and> parseComputerLawText
       (js ''1. Some section content here'' @ [10] @ js ''2. Published in Sefer Ha-Chukkim'')
       computerLawEntry =
     Some (mkAct computerLawEntry
       [\<lparr> provision_ref = js ''sec1'', prov_chapter = None, prov_section = js ''1'',
           prov_title = [], prov_content = js ''1. Some section content here'' \<rparr>] [])"
  by (simp add: char_defs str_defs line_defs cl_defs def_defs)

lemma cl_kept_eq: "cl_kept = (\<lambda>sec. 10 < length (normalizeText (sec_content sec)))"
  by (simp add: fun_eq_iff cl_kept_def)

lemma bl_kept_eq: "bl_kept = (\<lambda>sec. 10 < length (normalizeText (bl_content sec)))"
  by (simp add: fun_eq_iff bl_kept_def)

lemma html_provision_section:
  "map prov_section (map (\<lambda>(sec, content). html_provision sec (ch sec) content) scs) = map (\<lambda>sc. sm_num (fst sc)) scs"
  by (induction scs) (auto simp: html_provision_def)

text \<open>
  C4. In every strategy a recognized section becomes a provision exactly when its normalized
  content is longer than 10 characters. For the two plain-text parsers the provisions are
  those of the collected sections that pass this test, in order; for the two HTML parsers
  (the generic one for every act but the privacy law, for which it calls the other) the
  provisions are those of the section matches whose content passes it. The text \<^verbatim>\<open>1. a\<close>
  gives no provision, and a content of 11 characters is kept.
\<close>

theorem kept_iff_longer_than_ten:
  "(\<exists>ds. parseComputerLawText text act =
      Some (mkAct act
        (map (\<lambda>sec. cl_provision sec (normalizeText (sec_content sec)))
           (filter (\<lambda>sec. 10 < length (normalizeText (sec_content sec)))
              (cl_sections (split_lines (lawText text))))) ds))
   \<and> (\<exists>st. bl_loop (split_lines text) 0 ([], None) = Some st \<and>
        parseBasicLawText text act =
          Some (mkAct act
            (map (\<lambda>sec. bl_provision sec (normalizeText (bl_content sec)))
               (filter (\<lambda>sec. 10 < length (normalizeText (bl_content sec)))
                  (pushCurrent (fst st) (snd st)))) []))
   \<and> (\<exists>secs r. sectionMatches (privacyBody html) = Some secs \<and>
        parsePrivacyLawHtml html act = Some r \<and>
        map prov_section (provisions r) =
          map (\<lambda>sc. sm_num (fst sc))
            (filter (\<lambda>sc. 10 < length (snd sc)) (withContent (privacyBody html) secs)))
   \<and> (entry_id act \<noteq> js ''privacy-protection-law-1981'' \<longrightarrow>
        (\<exists>secs r. sectionMatches html = Some secs \<and>
          parseIsraeliLawHtml html act = Some r \<and>
          map prov_section (provisions r) =
            map (\<lambda>sc. sm_num (fst sc))
              (filter (\<lambda>sc. 10 < length (snd sc)) (withContent html secs))))
   \<and> (entry_id act = js ''privacy-protection-law-1981'' \<longrightarrow>
        parseIsraeliLawHtml html act = parsePrivacyLawHtml html act)
   \<and> parseComputerLawText (js ''1. a'') act = Some (mkAct act [] [])
   \<and> parseBasicLawText (js ''1. a'') act = Some (mkAct act [] [])
   \<and> length (js ''1. abcdefgh'') = 11
   \<and> parseComputerLawText (js ''1. abcdefgh'') act =
       Some (mkAct act
         [\<lparr> provision_ref = js ''sec1'', prov_chapter = None, prov_section = js ''1'',
             prov_title = [], prov_content = js ''1. abcdefgh'' \<rparr>] [])"
proof -
  have a: "\<exists>ds. parseComputerLawText text act =
      Some (mkAct act
        (map (\<lambda>sec. cl_provision sec (normalizeText (sec_content sec)))
           (filter (\<lambda>sec. 10 < length (normalizeText (sec_content sec)))
              (cl_sections (split_lines (lawText text))))) ds)"
    using computer_provisions [of "text" act] by (simp add: cl_kept_eq)
  have b: "\<exists>st. bl_loop (split_lines text) 0 ([], None) = Some st \<and>
        parseBasicLawText text act =
          Some (mkAct act
            (map (\<lambda>sec. bl_provision sec (normalizeText (bl_content sec)))
               (filter (\<lambda>sec. 10 < length (normalizeText (bl_content sec)))
                  (pushCurrent (fst st) (snd st)))) [])"
    using basic_provisions [of "text" act] by (simp add: bl_kept_eq)
  have c: "\<exists>secs r. sectionMatches (privacyBody html) = Some secs \<and>
        parsePrivacyLawHtml html act = Some r \<and>
        map prov_section (provisions r) =
          map (\<lambda>sc. sm_num (fst sc))
            (filter (\<lambda>sc. 10 < length (snd sc)) (withContent (privacyBody html) secs))"
    using privacy_provisions [of html act]
    by (auto simp: mkAct_def html_provision_def retained_filter)
  have d: "entry_id act \<noteq> js ''privacy-protection-law-1981'' \<longrightarrow> (\<exists>secs r. sectionMatches html = Some secs \<and>
          parseIsraeliLawHtml html act = Some r \<and>
          map prov_section (provisions r) =
            map (\<lambda>sc. sm_num (fst sc))
              (filter (\<lambda>sc. 10 < length (snd sc)) (withContent html secs)))"
  proof
    assume "entry_id act \<noteq> js ''privacy-protection-law-1981''"
    from generic_provisions [OF this, of html]
    show "\<exists>secs r. sectionMatches html = Some secs \<and>
          parseIsraeliLawHtml html act = Some r \<and>
          map prov_section (provisions r) =
            map (\<lambda>sc. sm_num (fst sc))
              (filter (\<lambda>sc. 10 < length (snd sc)) (withContent html secs))"
      by (auto simp: mkAct_def html_provision_def retained_filter)
  qed
  have route: "entry_id act = js ''privacy-protection-law-1981'' \<longrightarrow>
        parseIsraeliLawHtml html act = parsePrivacyLawHtml html act"
    by (simp add: privacy_route)
  have e: "parseComputerLawText (js ''1. a'') act = Some (mkAct act [] [])"
    by (simp add: char_defs str_defs line_defs cl_defs def_defs)
  have f: "parseBasicLawText (js ''1. a'') act = Some (mkAct act [] [])"
    by (simp add: char_defs str_defs bl_defs)
  have g: "parseComputerLawText (js ''1. abcdefgh'') act =
       Some (mkAct act
         [\<lparr> provision_ref = js ''sec1'', prov_chapter = None, prov_section = js ''1'',
             prov_title = [], prov_content = js ''1. abcdefgh'' \<rparr>] [])"
    by (simp add: char_defs str_defs line_defs cl_defs def_defs)
  have h: "length (js ''1. abcdefgh'') = 11" by (simp add: js_def)
  show ?thesis
    by (intro conjI a b c d route e f g h)
qed

theorem kept_iff_longer_than_ten_witness:
  "entry_id companiesLawEntry \<noteq> js ''privacy-protection-law-1981''
   \<and> parseIsraeliLawHtml (js ''<B>1. First</B> some long content <B>2. S</B> x'') companiesLawEntry =
       Some (mkAct companiesLawEntry
         [\<lparr> provision_ref = js ''sec1'', prov_chapter = None, prov_section = js ''1'',
             prov_title = js ''First'', prov_content = js ''1. First some long content'' \<rparr>] [])
   \<and> sectionContent (js ''<B>1. First</B> some long content <B>2. S</B> x'')
        \<lparr> sm_pos = 34, sm_num = js ''2'', sm_title = js ''S'' \<rparr> [] = js ''2. S x''
   \<and> parseComputerLawText (js ''1. a'') companiesLawEntry = Some (mkAct companiesLawEntry [] [])"
proof -
  have a: "entry_id companiesLawEntry \<noteq> js ''privacy-protection-law-1981''"
    by (simp add: companiesLawEntry_def js_def)
  have b: "parseIsraeliLawHtml (js ''<B>1. First</B> some long content <B>2. S</B> x'') companiesLawEntry =
       Some (mkAct companiesLawEntry
         [\<lparr> provision_ref = js ''sec1'', prov_chapter = None, prov_section = js ''1'',
             prov_title = js ''First'', prov_content = js ''1. First some long content'' \<rparr>] [])"
    by (simp add: char_defs str_defs html_defs companiesLawEntry_def)
  have c: "sectionContent (js ''<B>1. First</B> some long content <B>2. S</B> x'')
        \<lparr> sm_pos = 34, sm_num = js ''2'', sm_title = js ''S'' \<rparr> [] = js ''2. S x''"
    by (simp add: char_defs str_defs html_defs)
  show ?thesis
    using kept_iff_longer_than_ten
      [of "js ''1. a''" companiesLawEntry "js ''<B>1. First</B> some long content <B>2. S</B> x''"] a b c
    by (simp only: simp_thms)
qed

lemma min_8000: "length (substring c 0 8000) \<le> 8000"
  by (simp add: substring_def)

lemma substring_take: "substring c 0 n = take n c"
  by (simp add: substring_def)

text \<open>
  C5. In every strategy the content of an emitted provision is the normalized content of its
  section cut to its first 8000 characters: it is never longer than 8000 characters, and a
  normalized content of 9000 characters gives a content of exactly 8000.
\<close>

theorem content_capped_at_8000:
  "(\<exists>r. parseComputerLawText text act = Some r \<and>
      list_all2 (\<lambda>p sec. prov_content p = take 8000 (normalizeText (sec_content sec))
                    \<and> length (prov_content p) \<le> 8000
                    \<and> (length (normalizeText (sec_content sec)) = 9000 \<longrightarrow> length (prov_content p) = 8000))
        (provisions r)
        (filter (\<lambda>sec. 10 < length (normalizeText (sec_content sec)))
           (cl_sections (split_lines (lawText text)))))
   \<and> (\<exists>st r. bl_loop (split_lines text) 0 ([], None) = Some st \<and>
        parseBasicLawText text act = Some r \<and>
        list_all2 (\<lambda>p sec. prov_content p = take 8000 (normalizeText (bl_content sec))
                    \<and> length (prov_content p) \<le> 8000
                    \<and> (length (normalizeText (bl_content sec)) = 9000 \<longrightarrow> length (prov_content p) = 8000))
          (provisions r)
          (filter (\<lambda>sec. 10 < length (normalizeText (bl_content sec)))
             (pushCurrent (fst st) (snd st))))
   \<and> (\<exists>secs r. sectionMatches (privacyBody html) = Some secs \<and>
        parsePrivacyLawHtml html act = Some r \<and>
        list_all2 (\<lambda>p sc. prov_content p = take 8000 (snd sc)
                    \<and> length (prov_content p) \<le> 8000
                    \<and> (length (snd sc) = 9000 \<longrightarrow> length (prov_content p) = 8000))
          (provisions r)
          (filter (\<lambda>sc. 10 < length (snd sc)) (withContent (privacyBody html) secs)))
   \<and> (entry_id act \<noteq> js ''privacy-protection-law-1981'' \<longrightarrow>
        (\<exists>secs r. sectionMatches html = Some secs \<and>
          parseIsraeliLawHtml html act = Some r \<and>
          list_all2 (\<lambda>p sc. prov_content p = take 8000 (snd sc)
                      \<and> length (prov_content p) \<le> 8000
                      \<and> (length (snd sc) = 9000 \<longrightarrow> length (prov_content p) = 8000))
            (provisions r)
            (filter (\<lambda>sc. 10 < length (snd sc)) (withContent html secs))))
   \<and> (entry_id act = js ''privacy-protection-law-1981'' \<longrightarrow>
        parseIsraeliLawHtml html act = parsePrivacyLawHtml html act)"
proof -
  have a: "\<exists>r. parseComputerLawText text act = Some r \<and>
      list_all2 (\<lambda>p sec. prov_content p = take 8000 (normalizeText (sec_content sec))
                    \<and> length (prov_content p) \<le> 8000
                    \<and> (length (normalizeText (sec_content sec)) = 9000 \<longrightarrow> length (prov_content p) = 8000))
        (provisions r)
        (filter (\<lambda>sec. 10 < length (normalizeText (sec_content sec)))
           (cl_sections (split_lines (lawText text))))"
    using computer_provisions [of "text" act]
    by (auto simp: cl_kept_eq mkAct_def list.rel_map list_all2_same cl_provision_def substring_take)
  have b: "\<exists>st r. bl_loop (split_lines text) 0 ([], None) = Some st \<and>
        parseBasicLawText text act = Some r \<and>
        list_all2 (\<lambda>p sec. prov_content p = take 8000 (normalizeText (bl_content sec))
                    \<and> length (prov_content p) \<le> 8000
                    \<and> (length (normalizeText (bl_content sec)) = 9000 \<longrightarrow> length (prov_content p) = 8000))
          (provisions r)
          (filter (\<lambda>sec. 10 < length (normalizeText (bl_content sec)))
             (pushCurrent (fst st) (snd st)))"
    using basic_provisions [of "text" act]
    by (auto simp: bl_kept_eq mkAct_def list.rel_map list_all2_same bl_provision_def substring_take)
  have c: "\<exists>secs r. sectionMatches (privacyBody html) = Some secs \<and>
        parsePrivacyLawHtml html act = Some r \<and>
        list_all2 (\<lambda>p sc. prov_content p = take 8000 (snd sc)
                    \<and> length (prov_content p) \<le> 8000
                    \<and> (length (snd sc) = 9000 \<longrightarrow> length (prov_content p) = 8000))
          (provisions r)
          (filter (\<lambda>sc. 10 < length (snd sc)) (withContent (privacyBody html) secs))"
    using privacy_provisions [of html act]
    by (auto simp: mkAct_def list.rel_map list_all2_same html_provision_def substring_take
          retained_filter split_beta)
  have d: "entry_id act \<noteq> js ''privacy-protection-law-1981'' \<longrightarrow>
        (\<exists>secs r. sectionMatches html = Some secs \<and>
          parseIsraeliLawHtml html act = Some r \<and>
          list_all2 (\<lambda>p sc. prov_content p = take 8000 (snd sc)
                      \<and> length (prov_content p) \<le> 8000
                      \<and> (length (snd sc) = 9000 \<longrightarrow> length (prov_content p) = 8000))
            (provisions r)
            (filter (\<lambda>sc. 10 < length (snd sc)) (withContent html secs)))"
  proof
    assume "entry_id act \<noteq> js ''privacy-protection-law-1981''"
    from generic_provisions [OF this, of html]
    show "\<exists>secs r. sectionMatches html = Some secs \<and>
          parseIsraeliLawHtml html act = Some r \<and>
          list_all2 (\<lambda>p sc. prov_content p = take 8000 (snd sc)
                      \<and> length (prov_content p) \<le> 8000
                      \<and> (length (snd sc) = 9000 \<longrightarrow> length (prov_content p) = 8000))
            (provisions r)
            (filter (\<lambda>sc. 10 < length (snd sc)) (withContent html secs))"
      by (auto simp: mkAct_def list.rel_map list_all2_same html_provision_def substring_take
            retained_filter split_beta)
  qed
  have route: "entry_id act = js ''privacy-protection-law-1981'' \<longrightarrow>
        parseIsraeliLawHtml html act = parsePrivacyLawHtml html act"
    by (simp add: privacy_route)
  show ?thesis
    by (intro conjI a b c d route)
qed

lemma indexOf_absent: "c \<notin> set s \<Longrightarrow> indexOf (c # p) s = None"
  by (induction s) auto

lemma split_lines_single: "10 \<notin> set s \<Longrightarrow> split_lines s = [s]"
  by (induction s) auto

lemma dropWhile_id: "s \<noteq> [] \<Longrightarrow> \<not> P (hd s) \<Longrightarrow> dropWhile P s = s"
  by (cases s) auto

lemma trim_id: "s \<noteq> [] \<Longrightarrow> \<not> is_space (hd s) \<Longrightarrow> \<not> is_space (last s) \<Longrightarrow> trim s = s"
  by (simp add: trim_def dropWhile_id hd_rev)

lemma collapse_ws_id: "\<forall>c \<in> set s. \<not> is_space c \<Longrightarrow> collapse_ws s = s"
  by (induction s) auto

lemma allMatches_no_open:
  "\<forall>c \<in> set s. \<not> op c \<Longrightarrow> allMatches (matchQuoted op cl dr ns) pos s = []"
proof (induction s arbitrary: pos)
  case Nil
  show ?case by (subst allMatches.simps) (simp add: matchQuoted_def)
next
  case (Cons c s)
  have m: "matchQuoted op cl dr ns (c # s) = None"
    using Cons.prems by (simp add: matchQuoted_def)
  show ?case
    using Cons.prems by (subst allMatches.simps) (simp add: m Cons.IH)
qed

lemma normalizeText_Nil: "normalizeText [] = []"
  by (simp add: normalizeText_def trim_def)

lemma long_line_trim: "0 < n \<Longrightarrow> trim (long_line n) = long_line n"
  by (rule trim_id) (auto simp: long_line_def is_space_def)

lemma long_line_normal:
  assumes "0 < n"
  shows "normalizeText (long_line n) = long_line n"
proof -
  have "collapse_ws (replicate n 97) = replicate n 97"
    by (rule collapse_ws_id) (simp add: is_space_def)
  then have "collapse_ws (long_line n) = long_line n"
    by (simp add: long_line_def is_space_def)
  then show ?thesis by (simp add: normalizeText_def long_line_trim [OF assms])
qed

lemma long_line_lawText: "lawText (long_line n) = long_line n"
proof -
  have "indexOf (js ''Computers Law, 5755'') (long_line n) = None"
    unfolding js_def by (simp, rule indexOf_absent) (simp add: long_line_def)
  then show ?thesis by (simp add: lawText_def)
qed

lemma long_line_lines: "split_lines (long_line n) = [long_line n]"
  by (rule split_lines_single) (simp add: long_line_def)

lemma long_line_label: "sectionLabel is_alpha (long_line n) = Some ([49], 32 # replicate n 97)"
  by (simp add: sectionLabel_def long_line_def is_digit_def is_alpha_def is_upper_def is_lower_def)

lemma long_line_not_chapter: "\<not> chapterMatch (long_line n)"
  by (rule chapterMatch_no_label [OF long_line_label])

lemma long_line_not_alone: "0 < n \<Longrightarrow> sectionAloneMatch (long_line n) = None"
  by (simp add: sectionAloneMatch_def long_line_label list_all_iff is_space_def)

lemma long_line_inline:
  "0 < n \<Longrightarrow> sectionInlineMatch (long_line n) = Some (long_line n, [49], replicate n 97)"
  using long_line_label [of n]
  by (cases n)
     (simp_all add: sectionInlineMatch_def is_space_def not_lt_def is_lt_def long_line_def Let_def)

lemma long_line_not_published: "\<not> rePublishedIn (replicate n 97)"
proof
  assume "rePublishedIn (replicate n 97)"
  from published_not_space [OF this] ci_prefix_hd [of 80 "js ''ublished in''" "replicate n 97"] this
  show False
    by (cases n) (auto simp: rePublishedIn_def js_def upper_def is_lower_def)
qed

lemma long_line_sections:
  "0 < n \<Longrightarrow> cl_sections [long_line n] =
     [\<lparr> sec_num = [49], sec_title = [], sec_content = long_line n, sec_chapter = [] \<rparr>]"
  by (simp add: cl_sections_def cl_step_def cl_init_def long_line_trim long_line_not_chapter
        long_line_not_alone long_line_inline long_line_not_published long_line_normal
        pushCurrent_def normalizeText_Nil)

lemma long_line_no_definitions:
  "extractDefinitionsFromPlainText (long_line n) src ds = Some ds"
proof -
  have "allMatches plainPattern1 0 (long_line n) = []"
    unfolding plainPattern1_def
    by (rule allMatches_no_open) (auto simp: long_line_def straight_or_left_def)
  moreover have "allMatches plainPattern2 0 (long_line n) = []"
    unfolding plainPattern2_def
    by (rule allMatches_no_open) (auto simp: long_line_def straight_def)
  ultimately show ?thesis
    by (simp add: extractDefinitionsFromPlainText_eq runBody_def)
qed

lemma long_line_parse:
  assumes "7 < n"
  shows "parseComputerLawText (long_line n) act =
     Some (mkAct act
       [\<lparr> provision_ref = js ''sec1'', prov_chapter = None, prov_section = js ''1'',
           prov_title = [], prov_content = take 8000 (long_line n) \<rparr>] [])"
proof -
  have n: "0 < n" using assms by simp
  have len: "10 < length (long_line n)" using assms by (simp add: long_line_def)
  show ?thesis
    using len
    by (simp add: parseComputerLawText_def long_line_lawText long_line_lines
          long_line_sections [OF n] long_line_normal [OF n] long_line_no_definitions
          cl_provision_def or_undefined_def substring_take js_def)
qed

theorem content_capped_at_8000_witness:
  "length (normalizeText (long_line 8997)) = 9000
   \<and> parseComputerLawText (long_line 8997) computerLawEntry =
       Some (mkAct computerLawEntry
         [\<lparr> provision_ref = js ''sec1'', prov_chapter = None, prov_section = js ''1'',
             prov_title = [], prov_content = long_line 7997 \<rparr>] [])
   \<and> length (long_line 7997) = 8000"
proof -
  have a: "length (normalizeText (long_line 8997)) = 9000"
    by (simp add: long_line_normal) (simp add: long_line_def)
  have t: "take 8000 (long_line 8997) = long_line 7997"
    by (simp add: long_line_def)
  have b: "parseComputerLawText (long_line 8997) computerLawEntry =
       Some (mkAct computerLawEntry
         [\<lparr> provision_ref = js ''sec1'', prov_chapter = None, prov_section = js ''1'',
             prov_title = [], prov_content = long_line 7997 \<rparr>] [])"
    using long_line_parse [of 8997 computerLawEntry] by (simp only: t)
  have c: "length (long_line 7997) = 8000"
    by (simp add: long_line_def)
  show ?thesis
    using content_capped_at_8000 [of "long_line 8997" computerLawEntry "[]"] a b c
    by (simp only: simp_thms)
qed

lemma cl_step_no_section:
  assumes "sectionAloneMatch (trim l) = None" and "sectionInlineMatch (trim l) = None"
    and "sections st = []" and "currentSection st = None"
  shows "sections (cl_step st l) = [] \<and> currentSection (cl_step st l) = None"
  using assms by (simp add: cl_step_def Let_def)

lemma cl_fold_no_section:
  assumes "\<forall>l \<in> set ls. sectionAloneMatch (trim l) = None \<and> sectionInlineMatch (trim l) = None"
    and "sections st = []" and "currentSection st = None"
  shows "sections (foldl cl_step st ls) = [] \<and> currentSection (foldl cl_step st ls) = None"
  using assms
proof (induction ls arbitrary: st)
  case Nil
  then show ?case by simp
next
  case (Cons l ls)
  from Cons.prems have "sections (cl_step st l) = [] \<and> currentSection (cl_step st l) = None"
    by (intro cl_step_no_section) auto
  with Cons.IH [of "cl_step st l"] Cons.prems(1) show ?case by simp
qed

lemma cl_sections_no_section:
  assumes "\<forall>l \<in> set ls. sectionAloneMatch (trim l) = None \<and> sectionInlineMatch (trim l) = None"
  shows "cl_sections ls = []"
  using cl_fold_no_section [OF assms, of cl_init]
  by (simp add: cl_sections_def cl_init_def pushCurrent_def Let_def)

lemma bl_loop_no_section:
  assumes "\<forall>l \<in> set lines. sectionMatch (trim l) = None"
  shows "bl_loop lines i ([], None) = Some ([], None)"
proof (induction "length lines - i" arbitrary: i)
  case 0
  then show ?case by (subst bl_loop.simps) simp
next
  case (Suc k)
  then have i: "i < length lines" by simp
  with assms have "sectionMatch (trim (lines ! i)) = None" by simp
  then have step: "bl_step lines i ([], None) (trim (lines ! i)) = Some ([], None)"
    by (simp add: bl_step_def)
  from Suc have "k = length lines - (i + 1)" by simp
  from Suc(1) [OF this] show ?case
    using i step by (simp add: bl_loop_step)
qed

text \<open>
  C1. For every text and every act, each of \<^verbatim>\<open>parsePrivacyLawHtml\<close>,
  \<^verbatim>\<open>parseComputerLawText\<close>, \<^verbatim>\<open>parseBasicLawText\<close> and \<^verbatim>\<open>parseIsraeliLawHtml\<close> returns a
  \<^verbatim>\<open>ParsedAct\<close>: no loop runs forever and no access fails. When nothing is recognized (no
  section heading matches in the HTML body, or no line of the text is a section line) the
  provisions are empty; so they are for the empty text.
\<close>

theorem parsers_always_return:
  "(\<exists>r. parsePrivacyLawHtml html act = Some r
        \<and> (sectionMatches (privacyBody html) = Some [] \<longrightarrow> provisions r = []))
   \<and> (\<exists>r. parseComputerLawText text act = Some r
        \<and> ((\<forall>l \<in> set (split_lines (lawText text)).
              sectionAloneMatch (trim l) = None \<and> sectionInlineMatch (trim l) = None)
            \<longrightarrow> provisions r = []))
   \<and> (\<exists>r. parseBasicLawText text act = Some r
        \<and> ((\<forall>l \<in> set (split_lines text). sectionMatch (trim l) = None) \<longrightarrow> provisions r = []))
   \<and> (\<exists>r. parseIsraeliLawHtml html act = Some r
        \<and> (sectionMatches
              (if entry_id act = js ''privacy-protection-law-1981'' then privacyBody html else html)
              = Some [] \<longrightarrow> provisions r = []))
   \<and> parsePrivacyLawHtml [] act = Some (mkAct act [] [])
   \<and> parseComputerLawText [] act = Some (mkAct act [] [])
   \<and> parseBasicLawText [] act = Some (mkAct act [] [])
   \<and> parseIsraeliLawHtml [] act = Some (mkAct act [] [])"
proof -
  have a: "\<exists>r. parsePrivacyLawHtml html act = Some r
        \<and> (sectionMatches (privacyBody html) = Some [] \<longrightarrow> provisions r = [])" for html
    using privacy_provisions [of html act] by (auto simp: mkAct_def)
  have b: "\<exists>r. parseComputerLawText text act = Some r
        \<and> ((\<forall>l \<in> set (split_lines (lawText text)).
              sectionAloneMatch (trim l) = None \<and> sectionInlineMatch (trim l) = None)
            \<longrightarrow> provisions r = [])"
    using computer_provisions [of "text" act] cl_sections_no_section [of "split_lines (lawText text)"]
    by (auto simp: mkAct_def)
  have c: "\<exists>r. parseBasicLawText text act = Some r
        \<and> ((\<forall>l \<in> set (split_lines text). sectionMatch (trim l) = None) \<longrightarrow> provisions r = [])"
    using basic_provisions [of "text" act] bl_loop_no_section [of "split_lines text" 0]
    by (auto simp: mkAct_def pushCurrent_def)
  have d: "\<exists>r. parseIsraeliLawHtml html act = Some r
        \<and> (sectionMatches
              (if entry_id act = js ''privacy-protection-law-1981'' then privacyBody html else html)
              = Some [] \<longrightarrow> provisions r = [])"
  proof (cases "entry_id act = js ''privacy-protection-law-1981''")
    case True
    then show ?thesis using a [of html] by (simp add: privacy_route)
  next
    case False
    then show ?thesis using generic_provisions [OF False, of html] by (auto simp: mkAct_def)
  qed
  have e: "parsePrivacyLawHtml [] act = Some (mkAct act [] [])"
    by (simp add: char_defs str_defs html_defs)
  have f: "parseComputerLawText [] act = Some (mkAct act [] [])"
    by (simp add: char_defs str_defs line_defs cl_defs def_defs)
  have g: "parseBasicLawText [] act = Some (mkAct act [] [])"
    by (simp add: char_defs str_defs bl_defs)
  have h: "parseIsraeliLawHtml [] act = Some (mkAct act [] [])"
    by (simp add: char_defs str_defs html_defs)
  show ?thesis
    by (intro conjI a b c d e f g h)
qed

theorem parsers_always_return_witness:
  "sectionMatches (privacyBody (js ''no structure <B>at all</B>'')) = Some []
   \<and> parsePrivacyLawHtml (js ''no structure <B>at all</B>'') privacyLawEntry = Some (mkAct privacyLawEntry [] [])
   \<and> parseIsraeliLawHtml (js ''no structure <B>at all</B>'') privacyLawEntry = Some (mkAct privacyLawEntry [] [])
   \<and> list_all (\<lambda>l. sectionAloneMatch (trim l) = None \<and> sectionInlineMatch (trim l) = None)
        (split_lines (lawText (js ''Go'' @ [10] @ js ''just words'')))
   \<and> parseComputerLawText (js ''Go'' @ [10] @ js ''just words'') privacyLawEntry = Some (mkAct privacyLawEntry [] [])
   \<and> list_all (\<lambda>l. sectionMatch (trim l) = None) (split_lines (js ''Go'' @ [10] @ js ''just words''))
   \<and> parseBasicLawText (js ''Go'' @ [10] @ js ''just words'') privacyLawEntry = Some (mkAct privacyLawEntry [] [])"
proof -
  have a: "sectionMatches (privacyBody (js ''no structure <B>at all</B>'')) = Some []"
    by (simp add: char_defs str_defs html_defs)
  have b: "parsePrivacyLawHtml (js ''no structure <B>at all</B>'') privacyLawEntry = Some (mkAct privacyLawEntry [] [])"
    by (simp add: char_defs str_defs html_defs)
  have c: "parseIsraeliLawHtml (js ''no structure <B>at all</B>'') privacyLawEntry = Some (mkAct privacyLawEntry [] [])"
    by (simp add: char_defs str_defs html_defs privacyLawEntry_def)
  have d: "list_all (\<lambda>l. sectionAloneMatch (trim l) = None \<and> sectionInlineMatch (trim l) = None)
        (split_lines (lawText (js ''Go'' @ [10] @ js ''just words'')))"
    by (simp add: char_defs str_defs line_defs lawText_def)
  have e: "parseComputerLawText (js ''Go'' @ [10] @ js ''just words'') privacyLawEntry = Some (mkAct privacyLawEntry [] [])"
    by (simp add: char_defs str_defs line_defs cl_defs def_defs)
  have f: "list_all (\<lambda>l. sectionMatch (trim l) = None) (split_lines (js ''Go'' @ [10] @ js ''just words''))"
    by (simp add: char_defs str_defs bl_defs)
  have g: "parseBasicLawText (js ''Go'' @ [10] @ js ''just words'') privacyLawEntry = Some (mkAct privacyLawEntry [] [])"
    by (simp add: char_defs str_defs bl_defs)
  show ?thesis
    using parsers_always_return
      [of "js ''no structure <B>at all</B>''" privacyLawEntry "js ''Go'' @ [10] @ js ''just words''"]
      a b c d e f g
    by (simp only: simp_thms)
qed

lemma chapterScan_sorted:
  assumes "sorted (map ch_pos chs)"
  shows "((\<forall>c \<in> set chs. \<not> ch_pos c < pos) \<and> chapterScan chs pos cur = cur)
         \<or> (\<exists>c \<in> set chs. chapterScan chs pos cur = ch_name c \<and> ch_pos c < pos
               \<and> (\<forall>c' \<in> set chs. ch_pos c' < pos \<longrightarrow> ch_pos c' \<le> ch_pos c))"
  using assms
proof (induction chs rule: rev_induct)
  case Nil
  show ?case by (simp add: chapterScan_def)
next
  case (snoc x chs)
  from snoc.prems have srt: "sorted (map ch_pos chs)" and le: "\<forall>c \<in> set chs. ch_pos c \<le> ch_pos x"
    by (auto simp: sorted_append)
  show ?case
  proof (cases "ch_pos x < pos")
    case True
    then show ?thesis using le by (auto simp: chapterScan_snoc)
  next
    case False
    then show ?thesis using snoc.IH [OF srt] by (auto simp: chapterScan_snoc)
  qed
qed

lemma nearest_preceding_scan:
  assumes "sorted (map ch_pos chs)" and "\<forall>c \<in> set chs. ch_name c \<noteq> []"
  shows "nearest_preceding chs pos (or_undefined (chapterScan chs pos []))"
  using chapterScan_sorted [OF assms(1), of pos "[]"] assms(2)
  by (auto simp: nearest_preceding_def or_undefined_def)

lemma trim_keeps_head: "\<not> is_space c \<Longrightarrow> \<exists>t. trim (c # cs) = c # t"
  by (simp add: trim_def dropWhile_append3)

lemma normalizeText_keeps_head: "\<not> is_space c \<Longrightarrow> \<exists>t. normalizeText (c # cs) = c # t"
  by (simp add: normalizeText_def trim_keeps_head)

lemma replaceLit_keeps_head: "c \<noteq> p \<Longrightarrow> replaceLit (p # ps) rep (c # cs) = c # replaceLit (p # ps) rep cs"
  by simp

lemma decodeEntities_keeps_head: "c \<noteq> 38 \<Longrightarrow> \<exists>t. decodeEntities (c # cs) = c # t"
  by (simp add: decodeEntities_def js_def)

lemma stripHtml_keeps_head:
  assumes "\<not> is_space c" and "c \<noteq> 60" and "c \<noteq> 38"
  shows "\<exists>t. stripHtml (c # cs) = c # t"
proof -
  from assms(2) have "replaceTags (c # cs) = c # replaceTags cs" by simp
  moreover from decodeEntities_keeps_head [OF assms(3)]
  obtain t where "decodeEntities (c # replaceTags cs) = c # t" by blast
  moreover have "collapse_ws (c # t) = c # collapse_ws t" using assms(1) by simp
  ultimately show ?thesis
    using trim_keeps_head [OF assms(1)] by (simp add: stripHtml_def)
qed

lemma heading_name_nonempty:
  assumes "matchHeading kw s = Some (n, g1)" and "kw = k # kw'" and "is_alpha k"
  shows "normalizeText (stripHtml g1) \<noteq> []"
proof -
  let ?r1 = "dropWhile is_space (drop 3 s)"
  from assms(1) have pre: "ci_prefix kw ?r1"
    by (auto simp: matchHeading_def Let_def split: if_splits)
  from assms(1) have "g1 = take (length kw + length (takeWhile not_colon (drop (length kw) ?r1)) + 1
      + length (takeWhile not_lt_sign (tl (dropWhile not_colon (drop (length kw) ?r1))))) ?r1"
    by (auto simp: matchHeading_def Let_def split: if_splits)
  then have g1: "\<exists>m. g1 = take (Suc m) ?r1"
    by (metis add.commute add_Suc_right plus_1_eq_Suc)
  from ci_prefix_hd [of k kw' ?r1] pre assms(2) have r1: "?r1 \<noteq> []" "upper (hd ?r1) = upper k"
    by auto
  then obtain c cs where ccs: "?r1 = c # cs" by (cases ?r1) auto
  with g1 obtain t where t: "g1 = c # t" by auto
  from r1(2) ccs assms(3) have c: "\<not> is_space c" "c \<noteq> 60" "c \<noteq> 38"
    by (auto simp: upper_def is_alpha_def is_upper_def is_lower_def is_space_def split: if_splits)
  from stripHtml_keeps_head [OF c] obtain t' where "stripHtml (c # t) = c # t'" by blast
  with normalizeText_keeps_head [OF c(1), of t'] t show ?thesis by auto
qed

lemma pushChapter_names:
  assumes "c \<in> set (runBody pushChapter acc ms)"
  shows "c \<in> set acc \<or> (\<exists>pm \<in> set ms. ch_name c = normalizeText (stripHtml (snd pm)))"
  using assms
proof (induction ms arbitrary: c rule: rev_induct)
  case Nil
  then show ?case by (simp add: runBody_def)
next
  case (snoc pm ms)
  then show ?case by (auto simp: runBody_snoc pushChapter_def)
qed

lemma heading_matches_named:
  assumes "c \<in> set (runBody pushChapter acc (allMatches (matchHeading (k # kw')) pos body))"
    and "is_alpha k" and "\<forall>a \<in> set acc. ch_name a \<noteq> []"
  shows "ch_name c \<noteq> []"
proof -
  from pushChapter_names [OF assms(1)] show ?thesis
  proof
    assume "c \<in> set acc"
    with assms(3) show ?thesis by simp
  next
    assume "\<exists>pm \<in> set (allMatches (matchHeading (k # kw')) pos body).
              ch_name c = normalizeText (stripHtml (snd pm))"
    then obtain pm where pm: "pm \<in> set (allMatches (matchHeading (k # kw')) pos body)"
      and nm: "ch_name c = normalizeText (stripHtml (snd pm))" by blast
    from allMatches_from [OF pm] obtain s' n where "matchHeading (k # kw') s' = Some (n, snd pm)"
      by blast
    from heading_name_nonempty [OF this refl assms(2)] nm show ?thesis by simp
  qed
qed

lemma genericChapters_ok:
  assumes "genericChapters body = Some chs"
  shows "sorted (map ch_pos chs) \<and> (\<forall>c \<in> set chs. ch_name c \<noteq> [])"
proof -
  from assms have chs: "chs = runBody pushChapter [] (allMatches (matchHeading (js ''CHAPTER'')) 0 body)"
    by (simp add: genericChapters_eq)
  have "sorted (map ch_pos chs)"
    unfolding chs pushChapter_positions
    using strict_sorted_imp_sorted [OF allMatches_sorted] by simp
  moreover have "ch_name c \<noteq> []" if "c \<in> set chs" for c
    using that unfolding chs js_def
    by (simp, intro heading_matches_named [where acc = "[]"]) (auto simp: is_alpha_def is_upper_def)
  ultimately show ?thesis by blast
qed

lemma privacyChapters_ok:
  assumes "privacyChapters body = Some chs"
  shows "sorted (map ch_pos chs) \<and> (\<forall>c \<in> set chs. ch_name c \<noteq> [])"
proof -
  let ?c1 = "runBody pushChapter [] (allMatches (matchHeading (js ''CHAPTER'')) 0 body)"
  let ?c2 = "runBody pushChapter ?c1 (allMatches (matchHeading (js ''Article'')) 0 body)"
  from assms have chs: "chs = sort_key ch_pos ?c2"
    by (simp add: privacyChapters_eq)
  have n1: "\<forall>c \<in> set ?c1. ch_name c \<noteq> []"
  proof
    fix c assume "c \<in> set ?c1"
    then show "ch_name c \<noteq> []"
      unfolding js_def
      by (simp, intro heading_matches_named [where acc = "[]"]) (auto simp: is_alpha_def is_upper_def)
  qed
  have n2: "\<forall>c \<in> set ?c2. ch_name c \<noteq> []"
  proof
    fix c assume c: "c \<in> set ?c2"
    have "c \<in> set (runBody pushChapter ?c1
            (allMatches (matchHeading (65 # js ''rticle'')) 0 body))"
      using c by (simp add: js_def)
    from heading_matches_named [OF this _ n1] show "ch_name c \<noteq> []"
      by (simp add: is_alpha_def is_upper_def)
  qed
  show ?thesis using n2 by (simp add: chs)
qed

lemma html_chapters_nearest:
  assumes "sorted (map ch_pos chs)" and "\<forall>c \<in> set chs. ch_name c \<noteq> []"
  shows "list_all2 (\<lambda>p sc. prov_section p = sm_num (fst sc)
                      \<and> nearest_preceding chs (sm_pos (fst sc)) (prov_chapter p))
           (map (\<lambda>(sec, content). html_provision sec (chapterScan chs (sm_pos sec) []) content) scs)
           scs"
  using nearest_preceding_scan [OF assms]
  by (simp add: list.rel_map list_all2_same split_beta html_provision_def)

lemma runBody_pushChapter:
  "runBody pushChapter acc ms =
     acc @ map (\<lambda>pm. \<lparr> ch_pos = fst pm, ch_name = normalizeText (stripHtml (snd pm)) \<rparr>) ms"
  by (induction ms rule: rev_induct) (simp_all add: runBody_snoc pushChapter_def, simp add: runBody_def)

lemma runBody_pushSection:
  "runBody pushSection acc ms =
     acc @ map (\<lambda>pm. \<lparr> sm_pos = fst pm, sm_num = trim (fst (snd pm)),
                        sm_title = normalizeText (stripHtml (snd (snd pm))) \<rparr>) ms"
  by (induction ms rule: rev_induct) (simp_all add: runBody_snoc pushSection_def, simp add: runBody_def)

text \<open>
  C2. In both HTML parsers, the chapter of every emitted provision is the normalized name of
  the heading whose offset is the greatest offset less than the offset of the section
  match; it is \<^verbatim>\<open>undefined\<close> when no heading has a smaller offset. The headings are all
  the matches of the heading patterns in the parsed text, each with the offset where it
  starts: the chapter and the article headings in \<^verbatim>\<open>parsePrivacyLawHtml\<close>, sorted by offset,
  and the chapter headings in the generic parser. The sections are all the matches of the
  section pattern. The provisions correspond, in order, to the section matches whose content
  is longer than 10 characters.
\<close>

theorem chapter_is_nearest_preceding_heading:
  "(\<exists>chapters secs r.
       chapters = sort_key ch_pos
         (map (\<lambda>pm. \<lparr> ch_pos = fst pm, ch_name = normalizeText (stripHtml (snd pm)) \<rparr>)
            (allMatches (matchHeading (js ''CHAPTER'')) 0 (privacyBody html))
          @ map (\<lambda>pm. \<lparr> ch_pos = fst pm, ch_name = normalizeText (stripHtml (snd pm)) \<rparr>)
              (allMatches (matchHeading (js ''Article'')) 0 (privacyBody html)))
     \<and> secs = map (\<lambda>pm. \<lparr> sm_pos = fst pm, sm_num = trim (fst (snd pm)),
                             sm_title = normalizeText (stripHtml (snd (snd pm))) \<rparr>)
                 (allMatches sectionPattern 0 (privacyBody html))
     \<and> privacyChapters (privacyBody html) = Some chapters
     \<and> sectionMatches (privacyBody html) = Some secs
     \<and> parsePrivacyLawHtml html act = Some r
     \<and> list_all2 (\<lambda>p sc. prov_section p = sm_num (fst sc)
                     \<and> nearest_preceding chapters (sm_pos (fst sc)) (prov_chapter p))
          (provisions r)
          (filter (\<lambda>sc. 10 < length (snd sc)) (withContent (privacyBody html) secs)))
   \<and> (entry_id act \<noteq> js ''privacy-protection-law-1981'' \<longrightarrow>
        (\<exists>chapters secs r.
           chapters = map (\<lambda>pm. \<lparr> ch_pos = fst pm, ch_name = normalizeText (stripHtml (snd pm)) \<rparr>)
                        (allMatches (matchHeading (js ''CHAPTER'')) 0 html)
         \<and> secs = map (\<lambda>pm. \<lparr> sm_pos = fst pm, sm_num = trim (fst (snd pm)),
                                 sm_title = normalizeText (stripHtml (snd (snd pm))) \<rparr>)
                     (allMatches sectionPattern 0 html)
         \<and> genericChapters html = Some chapters
         \<and> sectionMatches html = Some secs
         \<and> parseIsraeliLawHtml html act = Some r
         \<and> list_all2 (\<lambda>p sc. prov_section p = sm_num (fst sc)
                         \<and> nearest_preceding chapters (sm_pos (fst sc)) (prov_chapter p))
              (provisions r)
              (filter (\<lambda>sc. 10 < length (snd sc)) (withContent html secs))))
   \<and> (entry_id act = js ''privacy-protection-law-1981'' \<longrightarrow>
        parseIsraeliLawHtml html act = parsePrivacyLawHtml html act)"
proof -
  have a: "\<exists>chapters secs r.
       chapters = sort_key ch_pos
         (map (\<lambda>pm. \<lparr> ch_pos = fst pm, ch_name = normalizeText (stripHtml (snd pm)) \<rparr>)
            (allMatches (matchHeading (js ''CHAPTER'')) 0 (privacyBody html))
          @ map (\<lambda>pm. \<lparr> ch_pos = fst pm, ch_name = normalizeText (stripHtml (snd pm)) \<rparr>)
              (allMatches (matchHeading (js ''Article'')) 0 (privacyBody html)))
     \<and> secs = map (\<lambda>pm. \<lparr> sm_pos = fst pm, sm_num = trim (fst (snd pm)),
                             sm_title = normalizeText (stripHtml (snd (snd pm))) \<rparr>)
                 (allMatches sectionPattern 0 (privacyBody html))
     \<and> privacyChapters (privacyBody html) = Some chapters
     \<and> sectionMatches (privacyBody html) = Some secs
     \<and> parsePrivacyLawHtml html act = Some r
     \<and> list_all2 (\<lambda>p sc. prov_section p = sm_num (fst sc)
                     \<and> nearest_preceding chapters (sm_pos (fst sc)) (prov_chapter p))
          (provisions r)
          (filter (\<lambda>sc. 10 < length (snd sc)) (withContent (privacyBody html) secs))"
  proof -
    from privacy_provisions [of html act] obtain chs secs ds where
      chs: "privacyChapters (privacyBody html) = Some chs" and
      secs: "sectionMatches (privacyBody html) = Some secs" and
      r: "parsePrivacyLawHtml html act =
         Some (mkAct act
           (map (\<lambda>(sec, content). html_provision sec (chapterScan chs (sm_pos sec) []) content)
              (retained (privacyBody html) secs)) ds)"
      by blast
    from privacyChapters_ok [OF chs] have ok: "sorted (map ch_pos chs)" "\<forall>c \<in> set chs. ch_name c \<noteq> []"
      by auto
    have chs_eq: "chs = sort_key ch_pos
         (map (\<lambda>pm. \<lparr> ch_pos = fst pm, ch_name = normalizeText (stripHtml (snd pm)) \<rparr>)
            (allMatches (matchHeading (js ''CHAPTER'')) 0 (privacyBody html))
          @ map (\<lambda>pm. \<lparr> ch_pos = fst pm, ch_name = normalizeText (stripHtml (snd pm)) \<rparr>)
              (allMatches (matchHeading (js ''Article'')) 0 (privacyBody html)))"
      using chs by (simp add: privacyChapters_eq runBody_pushChapter)
    have secs_eq: "secs = map (\<lambda>pm. \<lparr> sm_pos = fst pm, sm_num = trim (fst (snd pm)),
                             sm_title = normalizeText (stripHtml (snd (snd pm))) \<rparr>)
                 (allMatches sectionPattern 0 (privacyBody html))"
      using secs by (simp add: sectionMatches_eq runBody_pushSection)
    have l: "list_all2 (\<lambda>p sc. prov_section p = sm_num (fst sc)
                     \<and> nearest_preceding chs (sm_pos (fst sc)) (prov_chapter p))
          (provisions (mkAct act
           (map (\<lambda>(sec, content). html_provision sec (chapterScan chs (sm_pos sec) []) content)
              (retained (privacyBody html) secs)) ds))
          (filter (\<lambda>sc. 10 < length (snd sc)) (withContent (privacyBody html) secs))"
      using html_chapters_nearest [OF ok, of "retained (privacyBody html) secs"]
      by (simp add: mkAct_def retained_filter)
    show ?thesis
      using chs_eq secs_eq chs secs r l by blast
  qed
  have b: "entry_id act \<noteq> js ''privacy-protection-law-1981'' \<longrightarrow>
        (\<exists>chapters secs r.
           chapters = map (\<lambda>pm. \<lparr> ch_pos = fst pm, ch_name = normalizeText (stripHtml (snd pm)) \<rparr>)
                        (allMatches (matchHeading (js ''CHAPTER'')) 0 html)
         \<and> secs = map (\<lambda>pm. \<lparr> sm_pos = fst pm, sm_num = trim (fst (snd pm)),
                                 sm_title = normalizeText (stripHtml (snd (snd pm))) \<rparr>)
                     (allMatches sectionPattern 0 html)
         \<and> genericChapters html = Some chapters
         \<and> sectionMatches html = Some secs
         \<and> parseIsraeliLawHtml html act = Some r
         \<and> list_all2 (\<lambda>p sc. prov_section p = sm_num (fst sc)
                         \<and> nearest_preceding chapters (sm_pos (fst sc)) (prov_chapter p))
              (provisions r)
              (filter (\<lambda>sc. 10 < length (snd sc)) (withContent html secs)))"
  proof
    assume "entry_id act \<noteq> js ''privacy-protection-law-1981''"
    from generic_provisions [OF this, of html] obtain chs secs ds where
      chs: "genericChapters html = Some chs" and
      secs: "sectionMatches html = Some secs" and
      r: "parseIsraeliLawHtml html act =
         Some (mkAct act
           (map (\<lambda>(sec, content). html_provision sec (chapterScan chs (sm_pos sec) []) content)
              (retained html secs)) ds)"
      by blast
    from genericChapters_ok [OF chs] have ok: "sorted (map ch_pos chs)" "\<forall>c \<in> set chs. ch_name c \<noteq> []"
      by auto
    have chs_eq: "chs = map (\<lambda>pm. \<lparr> ch_pos = fst pm, ch_name = normalizeText (stripHtml (snd pm)) \<rparr>)
                        (allMatches (matchHeading (js ''CHAPTER'')) 0 html)"
      using chs by (simp add: genericChapters_eq runBody_pushChapter)
    have secs_eq: "secs = map (\<lambda>pm. \<lparr> sm_pos = fst pm, sm_num = trim (fst (snd pm)),
                                 sm_title = normalizeText (stripHtml (snd (snd pm))) \<rparr>)
                     (allMatches sectionPattern 0 html)"
      using secs by (simp add: sectionMatches_eq runBody_pushSection)
    have l: "list_all2 (\<lambda>p sc. prov_section p = sm_num (fst sc)
                     \<and> nearest_preceding chs (sm_pos (fst sc)) (prov_chapter p))
          (provisions (mkAct act
           (map (\<lambda>(sec, content). html_provision sec (chapterScan chs (sm_pos sec) []) content)
              (retained html secs)) ds))
          (filter (\<lambda>sc. 10 < length (snd sc)) (withContent html secs))"
      using html_chapters_nearest [OF ok, of "retained html secs"]
      by (simp add: mkAct_def retained_filter)
    show "\<exists>chapters secs r.
           chapters = map (\<lambda>pm. \<lparr> ch_pos = fst pm, ch_name = normalizeText (stripHtml (snd pm)) \<rparr>)
                        (allMatches (matchHeading (js ''CHAPTER'')) 0 html)
         \<and> secs = map (\<lambda>pm. \<lparr> sm_pos = fst pm, sm_num = trim (fst (snd pm)),
                                 sm_title = normalizeText (stripHtml (snd (snd pm))) \<rparr>)
                     (allMatches sectionPattern 0 html)
         \<and> genericChapters html = Some chapters
         \<and> sectionMatches html = Some secs
         \<and> parseIsraeliLawHtml html act = Some r
         \<and> list_all2 (\<lambda>p sc. prov_section p = sm_num (fst sc)
                         \<and> nearest_preceding chapters (sm_pos (fst sc)) (prov_chapter p))
              (provisions r)
              (filter (\<lambda>sc. 10 < length (snd sc)) (withContent html secs))"
      using chs_eq secs_eq chs secs r l by blast
  qed
  have route: "entry_id act = js ''privacy-protection-law-1981'' \<longrightarrow>
        parseIsraeliLawHtml html act = parsePrivacyLawHtml html act"
    by (simp add: privacy_route)
  show ?thesis by (intro conjI a b route)
qed

theorem chapter_is_nearest_preceding_heading_witness:
  "privacyChapters (privacyBody
      (js ''<B>1. Name</B> This Law has a name. <B>Article One: Data</B> <B>CHAPTER A: Intro</B> <B>2. Scope</B> It applies to all.'')) =
     Some [\<lparr> ch_pos = 36, ch_name = js ''Article One: Data'' \<rparr>,
           \<lparr> ch_pos = 61, ch_name = js ''CHAPTER A: Intro'' \<rparr>]
   \<and> map (\<lambda>p. (prov_section p, prov_chapter p)) (provisions (the (parsePrivacyLawHtml
      (js ''<B>1. Name</B> This Law has a name. <B>Article One: Data</B> <B>CHAPTER A: Intro</B> <B>2. Scope</B> It applies to all.'')
      privacyLawEntry))) =
     [(js ''1'', None), (js ''2'', Some (js ''CHAPTER A: Intro''))]
   \<and> nearest_preceding [\<lparr> ch_pos = 36, ch_name = js ''Article One: Data'' \<rparr>,
           \<lparr> ch_pos = 61, ch_name = js ''CHAPTER A: Intro'' \<rparr>] 0 None
   \<and> nearest_preceding [\<lparr> ch_pos = 36, ch_name = js ''Article One: Data'' \<rparr>,
           \<lparr> ch_pos = 61, ch_name = js ''CHAPTER A: Intro'' \<rparr>] 85 (Some (js ''CHAPTER A: Intro''))
   \<and> entry_id companiesLawEntry \<noteq> js ''privacy-protection-law-1981''
   \<and> allMatches (matchHeading (js ''CHAPTER'')) 0
        (js ''<B>1. Name</B> This Law has a name. <B>CHAPTER A: Intro</B> <B>2. Scope</B> It applies to all.'') =
       [(36, js ''CHAPTER A: Intro'')]
   \<and> genericChapters
        (js ''<B>1. Name</B> This Law has a name. <B>CHAPTER A: Intro</B> <B>2. Scope</B> It applies to all.'') =
       Some [\<lparr> ch_pos = 36, ch_name = js ''CHAPTER A: Intro'' \<rparr>]
   \<and> sectionMatches
        (js ''<B>1. Name</B> This Law has a name. <B>CHAPTER A: Intro</B> <B>2. Scope</B> It applies to all.'') =
       Some [\<lparr> sm_pos = 0, sm_num = js ''1'', sm_title = js ''Name'' \<rparr>,
             \<lparr> sm_pos = 60, sm_num = js ''2'', sm_title = js ''Scope'' \<rparr>]
   \<and> parseIsraeliLawHtml
        (js ''<B>1. Name</B> This Law has a name. <B>CHAPTER A: Intro</B> <B>2. Scope</B> It applies to all.'')
        companiesLawEntry =
       Some (mkAct companiesLawEntry
         [\<lparr> provision_ref = js ''sec1'', prov_chapter = None, prov_section = js ''1'',
             prov_title = js ''Name'',
             prov_content = js ''1. Name This Law has a name. CHAPTER A: Intro'' \<rparr>,
          \<lparr> provision_ref = js ''sec2'', prov_chapter = Some (js ''CHAPTER A: Intro''),
             prov_section = js ''2'', prov_title = js ''Scope'',
             prov_content = js ''2. Scope It applies to all.'' \<rparr>] [])
   \<and> nearest_preceding [\<lparr> ch_pos = 36, ch_name = js ''CHAPTER A: Intro'' \<rparr>] 0 None
   \<and> nearest_preceding [\<lparr> ch_pos = 36, ch_name = js ''CHAPTER A: Intro'' \<rparr>] 60
        (Some (js ''CHAPTER A: Intro''))"
proof -
  have a: "privacyChapters (privacyBody
      (js ''<B>1. Name</B> This Law has a name. <B>Article One: Data</B> <B>CHAPTER A: Intro</B> <B>2. Scope</B> It applies to all.'')) =
     Some [\<lparr> ch_pos = 36, ch_name = js ''Article One: Data'' \<rparr>,
           \<lparr> ch_pos = 61, ch_name = js ''CHAPTER A: Intro'' \<rparr>]"
    by (simp add: char_defs str_defs html_defs)
  have b: "map (\<lambda>p. (prov_section p, prov_chapter p)) (provisions (the (parsePrivacyLawHtml
      (js ''<B>1. Name</B> This Law has a name. <B>Article One: Data</B> <B>CHAPTER A: Intro</B> <B>2. Scope</B> It applies to all.'')
      privacyLawEntry))) =
     [(js ''1'', None), (js ''2'', Some (js ''CHAPTER A: Intro''))]"
    by (simp add: char_defs str_defs html_defs def_defs mkAct_def)
  have c: "nearest_preceding [\<lparr> ch_pos = 36, ch_name = js ''Article One: Data'' \<rparr>,
           \<lparr> ch_pos = 61, ch_name = js ''CHAPTER A: Intro'' \<rparr>] 0 None"
    by (simp add: nearest_preceding_def)
  have d: "nearest_preceding [\<lparr> ch_pos = 36, ch_name = js ''Article One: Data'' \<rparr>,
           \<lparr> ch_pos = 61, ch_name = js ''CHAPTER A: Intro'' \<rparr>] 85 (Some (js ''CHAPTER A: Intro''))"
    by (simp add: nearest_preceding_def)
  have e: "entry_id companiesLawEntry \<noteq> js ''privacy-protection-law-1981''"
    by (simp add: companiesLawEntry_def js_def)
  have f: "allMatches (matchHeading (js ''CHAPTER'')) 0
        (js ''<B>1. Name</B> This Law has a name. <B>CHAPTER A: Intro</B> <B>2. Scope</B> It applies to all.'') =
       [(36, js ''CHAPTER A: Intro'')]"
    by (simp add: char_defs str_defs html_defs allMatches_eval)
  have g: "genericChapters
        (js ''<B>1. Name</B> This Law has a name. <B>CHAPTER A: Intro</B> <B>2. Scope</B> It applies to all.'') =
       Some [\<lparr> ch_pos = 36, ch_name = js ''CHAPTER A: Intro'' \<rparr>]"
    by (simp add: char_defs str_defs html_defs)
  have h: "sectionMatches
        (js ''<B>1. Name</B> This Law has a name. <B>CHAPTER A: Intro</B> <B>2. Scope</B> It applies to all.'') =
       Some [\<lparr> sm_pos = 0, sm_num = js ''1'', sm_title = js ''Name'' \<rparr>,
             \<lparr> sm_pos = 60, sm_num = js ''2'', sm_title = js ''Scope'' \<rparr>]"
    by (simp add: char_defs str_defs html_defs)
  have i: "parseIsraeliLawHtml
        (js ''<B>1. Name</B> This Law has a name. <B>CHAPTER A: Intro</B> <B>2. Scope</B> It applies to all.'')
        companiesLawEntry =
       Some (mkAct companiesLawEntry
         [\<lparr> provision_ref = js ''sec1'', prov_chapter = None, prov_section = js ''1'',
             prov_title = js ''Name'',
             prov_content = js ''1. Name This Law has a name. CHAPTER A: Intro'' \<rparr>,
          \<lparr> provision_ref = js ''sec2'', prov_chapter = Some (js ''CHAPTER A: Intro''),
             prov_section = js ''2'', prov_title = js ''Scope'',
             prov_content = js ''2. Scope It applies to all.'' \<rparr>] [])"
    by (simp add: char_defs str_defs html_defs companiesLawEntry_def)
  have j: "nearest_preceding [\<lparr> ch_pos = 36, ch_name = js ''CHAPTER A: Intro'' \<rparr>] 0 None"
    by (simp add: nearest_preceding_def)
  have k: "nearest_preceding [\<lparr> ch_pos = 36, ch_name = js ''CHAPTER A: Intro'' \<rparr>] 60
        (Some (js ''CHAPTER A: Intro''))"
    by (simp add: nearest_preceding_def)
  show ?thesis
    using chapter_is_nearest_preceding_heading
      [of "js ''<B>1. Name</B> This Law has a name. <B>Article One: Data</B> <B>CHAPTER A: Intro</B> <B>2. Scope</B> It applies to all.''"
        privacyLawEntry]
      chapter_is_nearest_preceding_heading
      [of "js ''<B>1. Name</B> This Law has a name. <B>CHAPTER A: Intro</B> <B>2. Scope</B> It applies to all.''"
        companiesLawEntry]
      a b c d e f g h i j k
    by (simp only: simp_thms)
qed

lemma has_term_iff: "has_term ds t \<longleftrightarrow> t \<in> set (map def_term ds)"
  by (auto simp: has_term_def list_ex_iff)

lemma has_term_dom: "has_term ds t \<longleftrightarrow> t \<in> dom (map_of (termPairs ds))"
proof -
  have "fst ` set (termPairs ds) = set (map def_term ds)"
    by (auto simp: termPairs_def image_iff)
  then show ?thesis by (simp add: has_term_iff dom_map_of_conv_image_fst)
qed

lemma map_of_snoc_known: "t \<in> dom (map_of xs) \<Longrightarrow> map_of (xs @ [(t, d)]) = map_of xs"
  by (auto simp: fun_eq_iff map_add_def split: option.splits)

lemma map_of_snoc_cong: "map_of xs = map_of ys \<Longrightarrow> map_of (xs @ zs) = map_of (ys @ zs)"
  by simp

lemma acceptedPairs_snoc:
  "acceptedPairs (ms @ [pm]) =
     acceptedPairs ms @
       (if acceptable (termOf (fst (snd pm))) (definitionOf (snd (snd pm)))
        then [(termOf (fst (snd pm)), definitionOf (snd (snd pm)))] else [])"
  by (simp add: acceptedPairs_def)

lemma termPairs_snoc: "termPairs (ds @ [d]) = termPairs ds @ [(def_term d, def_definition d)]"
  by (simp add: termPairs_def)

lemma contentStep_cases:
  "contentStep src ds pos (g1, g2) =
     (if 1 < length (termOf g1) \<and> length (termOf g1) < 80 \<and> 5 < length (definitionOf g2)
         \<and> termOf g1 \<notin> set (map def_term ds)
      then ds @ [\<lparr> def_term = termOf g1, def_definition = definitionOf g2,
                   source_provision = Some src \<rparr>]
      else ds)"
  by (simp add: contentStep_def Let_def acceptable_def has_term_iff)

lemma content_run:
  "distinct (map def_term ds) \<longrightarrow> distinct (map def_term (runBody (contentStep src) ds ms))"
  "map_of (termPairs (runBody (contentStep src) ds ms)) = map_of (termPairs ds @ acceptedPairs ms)"
  "set (map def_term (runBody (contentStep src) ds ms)) =
     set (map def_term ds) \<union> fst ` set (acceptedPairs ms)"
proof (induction ms rule: rev_induct)
  case Nil
  { case 1 show ?case by (simp add: runBody_def) }
  { case 2 show ?case by (simp add: runBody_def acceptedPairs_def) }
  { case 3 show ?case by (simp add: runBody_def acceptedPairs_def) }
next
  case (snoc pm ms)
  let ?r = "runBody (contentStep src) ds ms"
  let ?t = "termOf (fst (snd pm))"
  let ?d = "definitionOf (snd (snd pm))"
  have pm: "snd pm = (fst (snd pm), snd (snd pm))" by simp
  have step: "runBody (contentStep src) ds (ms @ [pm]) =
      (if acceptable ?t ?d \<and> \<not> has_term ?r ?t
       then ?r @ [\<lparr> def_term = ?t, def_definition = ?d, source_provision = Some src \<rparr>] else ?r)"
    by (simp add: runBody_snoc contentStep_def Let_def)
  { case 1 show ?case using snoc.IH(1) by (auto simp: step has_term_iff) }
  { case 2
    show ?case
    proof (cases "acceptable ?t ?d")
      case False
      then show ?thesis using snoc.IH(2) by (simp add: step acceptedPairs_snoc)
    next
      case True
      show ?thesis
      proof (cases "has_term ?r ?t")
        case False
        with True show ?thesis
          using map_of_snoc_cong [OF snoc.IH(2), of "[(?t, ?d)]"]
          by (simp add: step acceptedPairs_snoc termPairs_snoc)
      next
        case known: True
        then have "?t \<in> dom (map_of (termPairs ds @ acceptedPairs ms))"
          using snoc.IH(2) by (simp add: has_term_dom)
        from map_of_snoc_known [OF this, of ?d] True known show ?thesis
          using snoc.IH(2) by (simp add: step acceptedPairs_snoc)
      qed
    qed }
  { case 3
    show ?case using snoc.IH(3)
      by (force simp: step acceptedPairs_snoc has_term_iff) }
qed

lemma plain_run:
  assumes "fst st \<subseteq> set (map def_term (snd st))"
  shows "fst (runBody (plainStep src) st ms) \<subseteq> set (map def_term (snd (runBody (plainStep src) st ms)))"
    "distinct (map def_term (snd st)) \<longrightarrow> distinct (map def_term (snd (runBody (plainStep src) st ms)))"
    "map_of (termPairs (snd (runBody (plainStep src) st ms))) = map_of (termPairs (snd st) @ acceptedPairs ms)"
    "set (map def_term (snd (runBody (plainStep src) st ms))) =
       set (map def_term (snd st)) \<union> fst ` set (acceptedPairs ms)"
proof (induction ms rule: rev_induct)
  case Nil
  { case 1 show ?case using assms by (simp add: runBody_def) }
  { case 2 show ?case by (simp add: runBody_def) }
  { case 3 show ?case by (simp add: runBody_def acceptedPairs_def) }
  { case 4 show ?case by (simp add: runBody_def acceptedPairs_def) }
next
  case (snoc pm ms)
  let ?s = "runBody (plainStep src) st ms"
  let ?r = "snd ?s"
  let ?t = "termOf (fst (snd pm))"
  let ?d = "definitionOf (snd (snd pm))"
  have step: "runBody (plainStep src) st (ms @ [pm]) =
      (if acceptable ?t ?d \<and> ?t \<notin> fst ?s
       then (insert ?t (fst ?s),
             if \<not> has_term ?r ?t
             then ?r @ [\<lparr> def_term = ?t, def_definition = ?d, source_provision = Some src \<rparr>]
             else ?r)
       else ?s)"
    by (simp add: runBody_snoc plainStep_def Let_def)
  have seen: "?t \<in> fst ?s \<Longrightarrow> has_term ?r ?t"
    using snoc.IH(1) by (auto simp: has_term_iff)
  { case 1 show ?case using snoc.IH(1) by (auto simp: step has_term_iff) }
  { case 2 show ?case using snoc.IH(2) by (auto simp: step has_term_iff) }
  { case 3
    show ?case
    proof (cases "acceptable ?t ?d")
      case False
      then show ?thesis using snoc.IH(3) by (simp add: step acceptedPairs_snoc)
    next
      case True
      show ?thesis
      proof (cases "has_term ?r ?t")
        case False
        with True seen show ?thesis
          using map_of_snoc_cong [OF snoc.IH(3), of "[(?t, ?d)]"]
          by (auto simp: step acceptedPairs_snoc termPairs_snoc)
      next
        case known: True
        then have "?t \<in> dom (map_of (termPairs (snd st) @ acceptedPairs ms))"
          using snoc.IH(3) by (simp add: has_term_dom)
        from map_of_snoc_known [OF this, of ?d] True known show ?thesis
          using snoc.IH(3) by (simp add: step acceptedPairs_snoc)
      qed
    qed }
  { case 4
    show ?case using snoc.IH(4) seen
      by (force simp: step acceptedPairs_snoc has_term_iff) }
qed

lemma plainStep_cases:
  assumes "fst st \<subseteq> set (map def_term (snd st))"
  shows "snd (plainStep src st pos (g1, g2)) =
     (if 1 < length (termOf g1) \<and> length (termOf g1) < 80 \<and> 5 < length (definitionOf g2)
         \<and> termOf g1 \<notin> set (map def_term (snd st))
      then snd st @ [\<lparr> def_term = termOf g1, def_definition = definitionOf g2,
                       source_provision = Some src \<rparr>]
      else snd st)"
  using assms by (auto simp: plainStep_def Let_def acceptable_def has_term_iff)

lemma content_extract:
  "\<exists>r. extractDefinitionsFromContent content src ds = Some r
     \<and> (distinct (map def_term ds) \<longrightarrow> distinct (map def_term r))
     \<and> map_of (termPairs r) = map_of (termPairs ds @ acceptedPairs (allMatches defPattern 0 content))
     \<and> set (map def_term r) =
         set (map def_term ds) \<union> fst ` set (acceptedPairs (allMatches defPattern 0 content))"
  using content_run [where ds = ds and src = src and ms = "allMatches defPattern 0 content"]
  by (simp add: extractDefinitionsFromContent_eq)

lemma plain_extract:
  "\<exists>r. extractDefinitionsFromPlainText content src ds = Some r
     \<and> (distinct (map def_term ds) \<longrightarrow> distinct (map def_term r))
     \<and> map_of (termPairs r) =
         map_of (termPairs ds @ acceptedPairs (allMatches plainPattern1 0 content)
                   @ acceptedPairs (allMatches plainPattern2 0 content))
     \<and> set (map def_term r) =
         set (map def_term ds) \<union> fst ` set (acceptedPairs (allMatches plainPattern1 0 content))
           \<union> fst ` set (acceptedPairs (allMatches plainPattern2 0 content))"
proof -
  let ?m1 = "allMatches plainPattern1 0 content" and ?m2 = "allMatches plainPattern2 0 content"
  let ?s1 = "runBody (plainStep src) ({}, ds) ?m1"
  let ?s2 = "runBody (plainStep src) ?s1 ?m2"
  have i0: "fst ({}, ds) \<subseteq> set (map def_term (snd ({}, ds)))" by simp
  note r1 = plain_run [OF i0, where src = src and ms = ?m1]
  note r2 = plain_run [OF r1(1), where src = src and ms = ?m2]
  have d: "distinct (map def_term ds) \<longrightarrow> distinct (map def_term (snd ?s2))"
    using r1(2) r2(2) by simp
  have m: "map_of (termPairs (snd ?s2)) = map_of (termPairs ds @ acceptedPairs ?m1 @ acceptedPairs ?m2)"
    using r2(3) map_of_snoc_cong [OF r1(3), of "acceptedPairs ?m2"] by simp
  have s: "set (map def_term (snd ?s2)) =
      set (map def_term ds) \<union> fst ` set (acceptedPairs ?m1) \<union> fst ` set (acceptedPairs ?m2)"
    using r1(4) r2(4) by simp
  show ?thesis
    using d m s by (simp add: extractDefinitionsFromPlainText_eq)
qed




text \<open>
  C6, as amended. In both definition extractors a quoted-term match is appended to the
  definitions exactly when the normalized term has from 2 to 79 characters, the normalized
  definition has more than 5 characters and no definition captured so far has the term
  (in \<^verbatim>\<open>extractDefinitionsFromPlainText\<close>, where the set \<^verbatim>\<open>seen\<close> holds only captured terms,
  as it does throughout the call). So the terms after a call are the terms before it and
  the terms of the matches that pass the length test. A term of 2 characters and a term of
  79 characters are accepted, with a definition longer than 5 characters.
\<close>

theorem definition_appended_iff:
  "contentStep src ds pos (g1, g2) =
     (if 1 < length (termOf g1) \<and> length (termOf g1) < 80 \<and> 5 < length (definitionOf g2)
         \<and> termOf g1 \<notin> set (map def_term ds)
      then ds @ [\<lparr> def_term = termOf g1, def_definition = definitionOf g2,
                   source_provision = Some src \<rparr>]
      else ds)
   \<and> (fst st \<subseteq> set (map def_term (snd st)) \<longrightarrow>
        snd (plainStep src st pos (g1, g2)) =
          (if 1 < length (termOf g1) \<and> length (termOf g1) < 80 \<and> 5 < length (definitionOf g2)
              \<and> termOf g1 \<notin> set (map def_term (snd st))
           then snd st @ [\<lparr> def_term = termOf g1, def_definition = definitionOf g2,
                            source_provision = Some src \<rparr>]
           else snd st))
   \<and> (\<exists>r. extractDefinitionsFromContent content src ds = Some r
        \<and> set (map def_term r) =
            set (map def_term ds) \<union> fst ` set (acceptedPairs (allMatches defPattern 0 content)))
   \<and> (\<exists>r. extractDefinitionsFromPlainText content src ds = Some r
        \<and> set (map def_term r) =
            set (map def_term ds) \<union> fst ` set (acceptedPairs (allMatches plainPattern1 0 content))
              \<union> fst ` set (acceptedPairs (allMatches plainPattern2 0 content)))
   \<and> extractDefinitionsFromContent ([34] @ js ''ab'' @ [34] @ js '' - definition text;'') src [] =
        Some [\<lparr> def_term = js ''ab'', def_definition = js ''definition text'', source_provision = Some (src) \<rparr>]
   \<and> extractDefinitionsFromPlainText ([34] @ js ''ab'' @ [34] @ js '' - definition text;'') src [] =
        Some [\<lparr> def_term = js ''ab'', def_definition = js ''definition text'', source_provision = Some (src) \<rparr>]
   \<and> length (js ''aaaaaaaaaaaaaaaaaaaaaaaaaaaaaaaaaaaaaaaaaaaaaaaaaaaaaaaaaaaaaaaaaaaaaaaaaaaaaaa'') = 79
   \<and> extractDefinitionsFromContent ([34] @ js ''aaaaaaaaaaaaaaaaaaaaaaaaaaaaaaaaaaaaaaaaaaaaaaaaaaaaaaaaaaaaaaaaaaaaaaaaaaaaaaa'' @ [34] @ js '' - definition text;'') src [] =
        Some [\<lparr> def_term = js ''aaaaaaaaaaaaaaaaaaaaaaaaaaaaaaaaaaaaaaaaaaaaaaaaaaaaaaaaaaaaaaaaaaaaaaaaaaaaaaa'', def_definition = js ''definition text'', source_provision = Some (src) \<rparr>]
   \<and> extractDefinitionsFromPlainText ([34] @ js ''aaaaaaaaaaaaaaaaaaaaaaaaaaaaaaaaaaaaaaaaaaaaaaaaaaaaaaaaaaaaaaaaaaaaaaaaaaaaaaa'' @ [34] @ js '' - definition text;'') src [] =
        Some [\<lparr> def_term = js ''aaaaaaaaaaaaaaaaaaaaaaaaaaaaaaaaaaaaaaaaaaaaaaaaaaaaaaaaaaaaaaaaaaaaaaaaaaaaaaa'', def_definition = js ''definition text'', source_provision = Some (src) \<rparr>]"
proof -
  have a: "\<exists>r. extractDefinitionsFromContent content src ds = Some r
        \<and> set (map def_term r) =
            set (map def_term ds) \<union> fst ` set (acceptedPairs (allMatches defPattern 0 content))"
    using content_extract [of content src ds] by blast
  have b: "\<exists>r. extractDefinitionsFromPlainText content src ds = Some r
        \<and> set (map def_term r) =
            set (map def_term ds) \<union> fst ` set (acceptedPairs (allMatches plainPattern1 0 content))
              \<union> fst ` set (acceptedPairs (allMatches plainPattern2 0 content))"
    using plain_extract [of content src ds] by blast
  have c: "fst st \<subseteq> set (map def_term (snd st)) \<longrightarrow>
        snd (plainStep src st pos (g1, g2)) =
          (if 1 < length (termOf g1) \<and> length (termOf g1) < 80 \<and> 5 < length (definitionOf g2)
              \<and> termOf g1 \<notin> set (map def_term (snd st))
           then snd st @ [\<lparr> def_term = termOf g1, def_definition = definitionOf g2,
                            source_provision = Some src \<rparr>]
           else snd st)"
    using plainStep_cases [of st src pos g1 g2] by blast
  have e1: "extractDefinitionsFromContent ([34] @ js ''ab'' @ [34] @ js '' - definition text;'') src [] =
        Some [\<lparr> def_term = js ''ab'', def_definition = js ''definition text'', source_provision = Some (src) \<rparr>]"
    by (simp add: char_defs str_defs def_defs)
  have e2: "extractDefinitionsFromPlainText ([34] @ js ''ab'' @ [34] @ js '' - definition text;'') src [] =
        Some [\<lparr> def_term = js ''ab'', def_definition = js ''definition text'', source_provision = Some (src) \<rparr>]"
    by (simp add: char_defs str_defs def_defs)
  have e3: "length (js ''aaaaaaaaaaaaaaaaaaaaaaaaaaaaaaaaaaaaaaaaaaaaaaaaaaaaaaaaaaaaaaaaaaaaaaaaaaaaaaa'') = 79" by (simp add: js_def)
  have e4: "extractDefinitionsFromContent ([34] @ js ''aaaaaaaaaaaaaaaaaaaaaaaaaaaaaaaaaaaaaaaaaaaaaaaaaaaaaaaaaaaaaaaaaaaaaaaaaaaaaaa'' @ [34] @ js '' - definition text;'') src [] =
        Some [\<lparr> def_term = js ''aaaaaaaaaaaaaaaaaaaaaaaaaaaaaaaaaaaaaaaaaaaaaaaaaaaaaaaaaaaaaaaaaaaaaaaaaaaaaaa'', def_definition = js ''definition text'', source_provision = Some (src) \<rparr>]"
    by (simp add: char_defs str_defs def_defs)
  have e5: "extractDefinitionsFromPlainText ([34] @ js ''aaaaaaaaaaaaaaaaaaaaaaaaaaaaaaaaaaaaaaaaaaaaaaaaaaaaaaaaaaaaaaaaaaaaaaaaaaaaaaa'' @ [34] @ js '' - definition text;'') src [] =
        Some [\<lparr> def_term = js ''aaaaaaaaaaaaaaaaaaaaaaaaaaaaaaaaaaaaaaaaaaaaaaaaaaaaaaaaaaaaaaaaaaaaaaaaaaaaaaa'', def_definition = js ''definition text'', source_provision = Some (src) \<rparr>]"
    by (simp add: char_defs str_defs def_defs)
  show ?thesis
    by (intro conjI contentStep_cases a b c e1 e2 e3 e4 e5)
qed

theorem definition_appended_iff_witness:
  "fst ({js ''cd''}, [\<lparr> def_term = js ''cd'', def_definition = js ''earlier text'', source_provision = None \<rparr>]) \<subseteq> set (map def_term (snd ({js ''cd''}, [\<lparr> def_term = js ''cd'', def_definition = js ''earlier text'', source_provision = None \<rparr>])))
   \<and> snd (plainStep (js ''sec1'') ({js ''cd''}, [\<lparr> def_term = js ''cd'', def_definition = js ''earlier text'', source_provision = None \<rparr>]) 0 (js ''ab'', js ''definition text;'')) =
       [\<lparr> def_term = js ''cd'', def_definition = js ''earlier text'', source_provision = None \<rparr>, \<lparr> def_term = js ''ab'', def_definition = js ''definition text'', source_provision = Some (js ''sec1'') \<rparr>]
   \<and> snd (plainStep (js ''sec1'') ({js ''cd''}, [\<lparr> def_term = js ''cd'', def_definition = js ''earlier text'', source_provision = None \<rparr>]) 0 (js ''cd'', js ''definition text;'')) =
       [\<lparr> def_term = js ''cd'', def_definition = js ''earlier text'', source_provision = None \<rparr>]
   \<and> contentStep (js ''sec1'') [\<lparr> def_term = js ''cd'', def_definition = js ''earlier text'', source_provision = None \<rparr>] 0 (js ''ab'', js ''definition text;'') = [\<lparr> def_term = js ''cd'', def_definition = js ''earlier text'', source_provision = None \<rparr>, \<lparr> def_term = js ''ab'', def_definition = js ''definition text'', source_provision = Some (js ''sec1'') \<rparr>]"
proof -
  have a: "fst ({js ''cd''}, [\<lparr> def_term = js ''cd'', def_definition = js ''earlier text'', source_provision = None \<rparr>]) \<subseteq> set (map def_term (snd ({js ''cd''}, [\<lparr> def_term = js ''cd'', def_definition = js ''earlier text'', source_provision = None \<rparr>])))"
    by simp
  have b: "snd (plainStep (js ''sec1'') ({js ''cd''}, [\<lparr> def_term = js ''cd'', def_definition = js ''earlier text'', source_provision = None \<rparr>]) 0 (js ''ab'', js ''definition text;'')) =
       [\<lparr> def_term = js ''cd'', def_definition = js ''earlier text'', source_provision = None \<rparr>, \<lparr> def_term = js ''ab'', def_definition = js ''definition text'', source_provision = Some (js ''sec1'') \<rparr>]"
    by (simp add: char_defs str_defs def_defs)
  have c: "snd (plainStep (js ''sec1'') ({js ''cd''}, [\<lparr> def_term = js ''cd'', def_definition = js ''earlier text'', source_provision = None \<rparr>]) 0 (js ''cd'', js ''definition text;'')) =
       [\<lparr> def_term = js ''cd'', def_definition = js ''earlier text'', source_provision = None \<rparr>]"
    by (simp add: char_defs str_defs def_defs)
  have d: "contentStep (js ''sec1'') [\<lparr> def_term = js ''cd'', def_definition = js ''earlier text'', source_provision = None \<rparr>] 0 (js ''ab'', js ''definition text;'') = [\<lparr> def_term = js ''cd'', def_definition = js ''earlier text'', source_provision = None \<rparr>, \<lparr> def_term = js ''ab'', def_definition = js ''definition text'', source_provision = Some (js ''sec1'') \<rparr>]"
    by (simp add: char_defs str_defs def_defs)
  show ?thesis
    using definition_appended_iff [of "js ''sec1''" "[\<lparr> def_term = js ''cd'', def_definition = js ''earlier text'', source_provision = None \<rparr>]" 0 "js ''ab''" "js ''definition text;''"
      "({js ''cd''}, [\<lparr> def_term = js ''cd'', def_definition = js ''earlier text'', source_provision = None \<rparr>])" "[]"] a b c d
    by (simp only: simp_thms)
qed

text \<open>
  C6 as stated fails: a match whose term has 1 character, or 80 characters, is not appended,
  though its definition has more than 5 characters and no term has been captured.
\<close>

theorem definition_appended_counterexample:
  "defPattern ([34] @ js ''x'' @ [34] @ js '' - definition text;'') = Some (22, js ''x'', js ''definition text;'')
   \<and> length (termOf (js ''x'')) = 1
   \<and> length (definitionOf (js ''definition text;'')) = 15
   \<and> extractDefinitionsFromContent ([34] @ js ''x'' @ [34] @ js '' - definition text;'') (js ''sec3'') [] = Some []
   \<and> extractDefinitionsFromPlainText ([34] @ js ''x'' @ [34] @ js '' - definition text;'') (js ''sec1'') [] = Some []
   \<and> length (termOf (js ''aaaaaaaaaaaaaaaaaaaaaaaaaaaaaaaaaaaaaaaaaaaaaaaaaaaaaaaaaaaaaaaaaaaaaaaaaaaaaaaa'')) = 80
   \<and> extractDefinitionsFromContent ([34] @ js ''aaaaaaaaaaaaaaaaaaaaaaaaaaaaaaaaaaaaaaaaaaaaaaaaaaaaaaaaaaaaaaaaaaaaaaaaaaaaaaaa'' @ [34] @ js '' - definition text;'') (js ''sec3'') [] = Some []
   \<and> extractDefinitionsFromPlainText ([34] @ js ''aaaaaaaaaaaaaaaaaaaaaaaaaaaaaaaaaaaaaaaaaaaaaaaaaaaaaaaaaaaaaaaaaaaaaaaaaaaaaaaa'' @ [34] @ js '' - definition text;'') (js ''sec1'') [] = Some []"
  by (simp add: char_defs str_defs def_defs)




end
